theory Spec2Isabelle
  imports Main
begin

section \<open>JavaScript strings\<close>

text \<open>
  A JavaScript string is a sequence of UTF-16 code units. A code unit is modelled as a
  natural number, so that the characters the source uses outside Latin-1 (the cross mark
  U+274C in \<open>ChatWindow\<close>) and the whole white-space set of \<open>String.prototype.trim\<close>
  are representable. \<open>lit\<close> embeds an ASCII literal.
\<close>

type_synonym jsstring = "nat list"

definition lit :: "string \<Rightarrow> jsstring" where
  "lit s = map of_char s"

text \<open>
  ECMAScript \<open>WhiteSpace\<close> and \<open>LineTerminator\<close> code points, which are what
  \<open>trim\<close> strips: TAB, LF, VT, FF, CR, SP, NBSP, U+1680, U+2000..U+200A, LS, PS,
  U+202F, U+205F, U+3000 and U+FEFF.
\<close>

definition is_ws :: "nat \<Rightarrow> bool" where
  "is_ws c \<longleftrightarrow>
     c = 9 \<or> c = 10 \<or> c = 11 \<or> c = 12 \<or> c = 13 \<or> c = 32 \<or> c = 160 \<or> c = 5760 \<or>
     (8192 \<le> c \<and> c \<le> 8202) \<or> c = 8232 \<or> c = 8233 \<or> c = 8239 \<or> c = 8287 \<or>
     c = 12288 \<or> c = 65279"

definition trim :: "jsstring \<Rightarrow> jsstring" where
  "trim s = rev (dropWhile is_ws (rev (dropWhile is_ws s)))"

text \<open>\<open>String(n)\<close> of a non-negative integer: its decimal digits.\<close>

fun nat_to_string :: "nat \<Rightarrow> jsstring" where
  "nat_to_string n =
     (if n < 10 then [48 + n] else nat_to_string (n div 10) @ [48 + n mod 10])"

declare nat_to_string.simps [simp del]

section \<open>Shared types (lib/types.ts)\<close>

text \<open>
  A value decoded from JSON. A number keeps its lexeme: no claim depends on its
  floating-point value. An object keeps its members in textual order.
\<close>

datatype json =
    JNull
  | JBool bool
  | JNumber jsstring
  | JString jsstring
  | JArray "json list"
  | JObject "(jsstring \<times> json) list"

record IntermediateStep =
  thought :: jsstring
  action :: jsstring
  action_input :: json
  observation :: jsstring

record ChatResponse =
  answer :: jsstring
  intermediate_steps :: "IntermediateStep list"
  tokens :: int
  error :: "jsstring option"

datatype role = Role_user | Role_assistant

record Message =
  id_msg :: jsstring
  role :: role
  content :: jsstring
  timestamp :: nat
  steps :: "IntermediateStep list option"
  isError :: "bool option"
  tokens :: "int option"

section \<open>The browser environment\<close>

text \<open>
  What the source reads and writes outside React state: \<open>localStorage\<close>, and the
  address, as its path and the decoded query parameters that \<open>URLSearchParams\<close>
  yields (in order; \<open>get\<close> returns the first value of a key).
\<close>

record browser =
  localStorage :: "jsstring \<rightharpoonup> jsstring"
  pathname :: jsstring
  location_search :: "(jsstring \<times> jsstring) list"

definition removeItem :: "jsstring \<Rightarrow> browser \<Rightarrow> browser" where
  "removeItem k b = b\<lparr>localStorage := (localStorage b)(k := None)\<rparr>"

definition setItem :: "jsstring \<Rightarrow> jsstring \<Rightarrow> browser \<Rightarrow> browser" where
  "setItem k v b = b\<lparr>localStorage := (localStorage b)(k \<mapsto> v)\<rparr>"

definition getItem :: "jsstring \<Rightarrow> browser \<Rightarrow> jsstring option" where
  "getItem k b = localStorage b k"

text \<open>
  Both \<open>window.location.href = "/"\<close> and \<open>history.replaceState({}, "", "/")\<close>
  leave the address at the application root with no query.
\<close>

definition to_root :: "browser \<Rightarrow> browser" where
  "to_root b = b\<lparr>pathname := lit ''/'', location_search := []\<rparr>"

text \<open>
  A thrown value: an \<open>Error\<close> with its message, or some value that is not an
  instance of \<open>Error\<close>.
\<close>

datatype exn = Error jsstring | Thrown json

text \<open>
  The outcome of \<open>fetch\<close>: the promise rejects (a transport fault), or resolves
  with a response. \<open>text\<close> and \<open>json\<close> are what \<open>response.text()\<close> and
  \<open>response.json()\<close> settle with; \<open>json\<close> rejects on a body that does not decode.
\<close>

record 'a response =
  status :: nat
  text_body :: "exn + jsstring"
  json_body :: "exn + 'a"

datatype 'a fetch_outcome = Rejected exn | Resolved "'a response"

text \<open>\<open>response.ok\<close>: the status is in the range 200 to 299.\<close>

definition ok :: "'a response \<Rightarrow> bool" where
  "ok r \<longleftrightarrow> 200 \<le> status r \<and> status r \<le> 299"

section \<open>lib/api.ts\<close>

record chat_body =
  message :: jsstring
  history :: "(role \<times> jsstring) list"
  folder_id :: "jsstring option"

record chat_request =
  path :: jsstring
  http_method :: jsstring
  authorization :: jsstring
  body :: chat_body

text \<open>The request that \<open>sendChatMessage\<close> hands to \<open>fetch\<close>.\<close>

definition sendChatMessage_request ::
  "jsstring \<Rightarrow> (role \<times> jsstring) list \<Rightarrow> jsstring \<Rightarrow> jsstring option \<Rightarrow> chat_request" where
  "sendChatMessage_request msg hist token fid =
     \<lparr>path = lit ''/api/chat'', http_method = lit ''POST'',
      authorization = lit ''Bearer '' @ token,
      body = \<lparr>message = msg, history = hist, folder_id = fid\<rparr>\<rparr>"

text \<open>
  The rest of \<open>sendChatMessage\<close>, from the point where \<open>fetch\<close> settles. The result is
  the browser state it leaves and what the promise settles with: \<open>Inl\<close> a thrown
  value, \<open>Inr\<close> the decoded response.
\<close>

definition sendChatMessage ::
  "browser \<Rightarrow> ChatResponse fetch_outcome \<Rightarrow> browser \<times> (exn + ChatResponse)" where
  "sendChatMessage b out =
     (case out of
        Rejected e \<Rightarrow> (b, Inl e)
      | Resolved r \<Rightarrow>
          if status r = 401 then
            (to_root (removeItem (lit ''user'') b),
             Inl (Error (lit ''Session expired. Please log in again.'')))
          else if \<not> ok r then
            (case text_body r of
               Inl e \<Rightarrow> (b, Inl e)
             | Inr t \<Rightarrow>
                 (b, Inl (Error (lit ''API error '' @ nat_to_string (status r) @ lit '': '' @ t))))
          else
            (case json_body r of
               Inl e \<Rightarrow> (b, Inl e)
             | Inr data \<Rightarrow> (b, Inr data)))"

record Folder =
  id_folder :: jsstring
  name :: jsstring

text \<open>The decoded body of \<open>GET /api/folders\<close>; \<open>folders\<close> may be missing or null.\<close>

record folders_payload =
  data_folders :: "Folder list option"

text \<open>
  \<open>fetchFolders\<close>, from the point where \<open>fetch\<close> settles. The source awaits
  \<open>fetch\<close> and \<open>response.json()\<close> outside any \<open>try\<close>, so a rejection of either is
  the rejection of \<open>fetchFolders\<close>.
\<close>

definition fetchFolders :: "folders_payload fetch_outcome \<Rightarrow> exn + Folder list" where
  "fetchFolders out =
     (case out of
        Rejected e \<Rightarrow> Inl e
      | Resolved r \<Rightarrow>
          if \<not> ok r then Inr []
          else
            (case json_body r of
               Inl e \<Rightarrow> Inl e
             | Inr data \<Rightarrow> Inr (case data_folders data of None \<Rightarrow> [] | Some fs \<Rightarrow> fs)))"

text \<open>
  \<open>fetchUserInfo\<close>, whose whole body is inside \<open>try\<close>/\<open>catch\<close>: every rejection
  becomes \<open>null\<close>. The decoded body is an object, given by its members; the spread
  \<open>{...data, token}\<close> keeps them and sets \<open>token\<close>.
\<close>

fun set_member :: "jsstring \<Rightarrow> json \<Rightarrow> (jsstring \<times> json) list \<Rightarrow> (jsstring \<times> json) list" where
  "set_member k v [] = [(k, v)]"
| "set_member k v (p # ps) = (if fst p = k then (k, v) # ps else p # set_member k v ps)"

definition fetchUserInfo ::
  "jsstring \<Rightarrow> (jsstring \<times> json) list fetch_outcome \<Rightarrow> exn + json" where
  "fetchUserInfo token out =
     (case out of
        Rejected e \<Rightarrow> Inr JNull
      | Resolved r \<Rightarrow>
          if \<not> ok r then Inr JNull
          else
            (case json_body r of
               Inl e \<Rightarrow> Inr JNull
             | Inr data \<Rightarrow> Inr (JObject (set_member (lit ''token'') (JString token) data))))"

section \<open>ChatWindow\<close>

datatype LoadingStage = idle | searching | reading | thinking

text \<open>
  The pending timers of \<open>setTimeout\<close>, as a table from handle to the stage that the
  callback sets. Handles are allocated in increasing order and never reused. The 50 ms
  scroll timers of \<open>scrollToBottom\<close> only move the viewport and are left out.
\<close>

record timer =
  handle :: nat
  delay :: nat
  callback :: LoadingStage

record ChatWindow =
  messages :: "Message list"
  input :: jsstring
  loadingStage :: LoadingStage
  selectedFolderId :: "jsstring option"
  timers :: "timer list"
  next_handle :: nat

definition setTimeout :: "LoadingStage \<Rightarrow> nat \<Rightarrow> ChatWindow \<Rightarrow> nat \<times> ChatWindow" where
  "setTimeout st d w =
     (next_handle w,
      w\<lparr>timers := timers w @ [\<lparr>handle = next_handle w, delay = d, callback = st\<rparr>],
        next_handle := Suc (next_handle w)\<rparr>)"

definition clearTimeout :: "nat \<Rightarrow> ChatWindow \<Rightarrow> ChatWindow" where
  "clearTimeout h w = w\<lparr>timers := filter (\<lambda>t. handle t \<noteq> h) (timers w)\<rparr>"

text \<open>
  The event loop runs the callback of a pending timer, once; a handle that is not
  pending (cleared, or already run) does nothing.
\<close>

definition timer_fire :: "nat \<Rightarrow> ChatWindow \<Rightarrow> ChatWindow" where
  "timer_fire h w =
     (case find (\<lambda>t. handle t = h) (timers w) of
        None \<Rightarrow> w
      | Some t \<Rightarrow> (clearTimeout h w)\<lparr>loadingStage := callback t\<rparr>)"

text \<open>\<open>messages.slice(-n)\<close>: the last \<open>n\<close> elements, all of them when there are fewer.\<close>

definition slice_last :: "nat \<Rightarrow> 'a list \<Rightarrow> 'a list" where
  "slice_last n xs = drop (length xs - n) xs"

text \<open>\<open>selectedFolderId || undefined\<close>: null and the empty string both give undefined.\<close>

definition or_undefined :: "jsstring option \<Rightarrow> jsstring option" where
  "or_undefined x = (case x of None \<Rightarrow> None | Some v \<Rightarrow> if v = [] then None else Some v)"

text \<open>The two timer handles that the continuation of \<open>handleSend\<close> holds across the await.\<close>

record turn =
  stageTimer1 :: nat
  stageTimer2 :: nat

text \<open>
  \<open>handleSend\<close> up to the await. \<open>fresh\<close> and \<open>now\<close> are what \<open>generateId()\<close> and
  \<open>new Date()\<close> return; \<open>token\<close> is \<open>user.token\<close>. The result is the new state and,
  when the call is not rejected, the request dispatched and the suspended turn.
\<close>

definition handleSend ::
  "jsstring \<Rightarrow> nat \<Rightarrow> jsstring \<Rightarrow> ChatWindow \<Rightarrow> ChatWindow \<times> (chat_request \<times> turn) option" where
  "handleSend fresh now token w =
     (let text = trim (input w) in
      if text = [] \<or> loadingStage w \<noteq> idle then (w, None)
      else
        let userMsg = \<lparr>id_msg = fresh, role = Role_user, content = text, timestamp = now,
                       steps = None, isError = None, tokens = None\<rparr>;
            w1 = w\<lparr>messages := messages w @ [userMsg], input := []\<rparr>;
            w2 = w1\<lparr>loadingStage := searching\<rparr>;
            (t1, w3) = setTimeout reading 3500 w2;
            (t2, w4) = setTimeout thinking 8000 w3;
            hist = map (\<lambda>m. (role m, content m)) (slice_last 10 (messages w))
        in (w4,
            Some (sendChatMessage_request text hist token (or_undefined (selectedFolderId w)),
                  \<lparr>stageTimer1 = t1, stageTimer2 = t2\<rparr>)))"

text \<open>The cross mark U+274C and a space: the prefix of a failed answer.\<close>

definition cross_prefix :: jsstring where
  "cross_prefix = [10060, 32]"

text \<open>\<open>response.error\<close> as a condition: neither null nor the empty string.\<close>

definition truthy :: "jsstring option \<Rightarrow> bool" where
  "truthy x = (case x of None \<Rightarrow> False | Some v \<Rightarrow> v \<noteq> [])"

text \<open>
  \<open>handleSend\<close> after the await: \<open>res\<close> is what \<open>sendChatMessage\<close> settled with,
  \<open>Inr\<close> continuing the \<open>try\<close> block and \<open>Inl\<close> entering \<open>catch\<close>.
\<close>

definition handleSend_resume ::
  "jsstring \<Rightarrow> nat \<Rightarrow> turn \<Rightarrow> exn + ChatResponse \<Rightarrow> ChatWindow \<Rightarrow> ChatWindow" where
  "handleSend_resume fresh now t res w =
     (let w1 = clearTimeout (stageTimer1 t) w;
          w2 = clearTimeout (stageTimer2 t) w1;
          w3 = w2\<lparr>loadingStage := idle\<rparr>
      in case res of
           Inr response \<Rightarrow>
             let assistantMsg =
                   \<lparr>id_msg = fresh, role = Role_assistant,
                    content =
                      (if truthy (error response) then cross_prefix @ the (error response)
                       else if answer response \<noteq> [] then answer response
                       else lit ''No response generated.''),
                    timestamp = now,
                    steps = Some (intermediate_steps response),
                    isError = Some (truthy (error response)),
                    tokens = Some (ChatResponse.tokens response)\<rparr>
             in w3\<lparr>messages := messages w3 @ [assistantMsg]\<rparr>
         | Inl err \<Rightarrow>
             let errMsg = (case err of Error m \<Rightarrow> m | Thrown v \<Rightarrow> lit ''Unknown error'');
                 errorMsg =
                   \<lparr>id_msg = fresh, role = Role_assistant,
                    content = lit ''Failed to reach the backend: '' @ errMsg,
                    timestamp = now, steps = None, isError = Some True, tokens = None\<rparr>
             in w3\<lparr>messages := messages w3 @ [errorMsg]\<rparr>)"

definition handleClear :: "ChatWindow \<Rightarrow> ChatWindow" where
  "handleClear w = w\<lparr>messages := [], input := []\<rparr>"

definition ChatWindow_init :: ChatWindow where
  "ChatWindow_init =
     \<lparr>messages = [], input = [], loadingStage = idle, selectedFolderId = None,
      timers = [], next_handle = 1\<rparr>"

subsection \<open>The chat window in its event loop\<close>

text \<open>
  One mounted \<open>ChatWindow\<close> with its \<open>user.token\<close>, the browser state, the turns
  suspended at their await, and the log of the requests dispatched. An event is one
  task of the event loop: an edit of the input box, a call of \<open>handleSend\<close>, of
  \<open>handleClear\<close>, a folder selection, a timer coming due, or the \<open>fetch\<close> of the
  \<open>k\<close>-th suspended turn settling.
\<close>

record system =
  win :: ChatWindow
  env :: browser
  token_of :: jsstring
  in_flight :: "turn list"
  sent :: "chat_request list"

datatype event =
    Edit jsstring
  | Send jsstring nat
  | Clear
  | Select "jsstring option"
  | Fire nat
  | Settle nat "ChatResponse fetch_outcome" jsstring nat

definition remove_nth :: "nat \<Rightarrow> 'a list \<Rightarrow> 'a list" where
  "remove_nth k xs = take k xs @ drop (Suc k) xs"

fun step :: "system \<Rightarrow> event \<Rightarrow> system" where
  "step S (Edit txt) = S\<lparr>win := (win S)\<lparr>input := txt\<rparr>\<rparr>"
| "step S (Send fresh now) =
     (case handleSend fresh now (token_of S) (win S) of
        (w, None) \<Rightarrow> S\<lparr>win := w\<rparr>
      | (w, Some (req, t)) \<Rightarrow>
          S\<lparr>win := w, in_flight := in_flight S @ [t], sent := sent S @ [req]\<rparr>)"
| "step S Clear = S\<lparr>win := handleClear (win S)\<rparr>"
| "step S (Select f) = S\<lparr>win := (win S)\<lparr>selectedFolderId := f\<rparr>\<rparr>"
| "step S (Fire h) = S\<lparr>win := timer_fire h (win S)\<rparr>"
| "step S (Settle k out fresh now) =
     (if k < length (in_flight S) then
        (case sendChatMessage (env S) out of
           (b, res) \<Rightarrow>
             S\<lparr>win := handleSend_resume fresh now (in_flight S ! k) res (win S),
               env := b,
               in_flight := remove_nth k (in_flight S)\<rparr>)
      else S)"

definition run :: "system \<Rightarrow> event list \<Rightarrow> system" where
  "run S evs = foldl step S evs"

definition system_init :: "jsstring \<Rightarrow> browser \<Rightarrow> system" where
  "system_init tok b =
     \<lparr>win = ChatWindow_init, env = b, token_of = tok, in_flight = [], sent = []\<rparr>"

subsection \<open>Invariants of the event loop\<close>

text \<open>
  What every reachable state satisfies: pending timers have allocated handles and
  callbacks that set a stage other than idle; the handles a suspended turn holds are
  allocated; with no turn suspended the stage is idle and no timer is pending; otherwise
  exactly one turn is suspended, the stage is not idle, and every pending timer is one
  of the two of that turn.
\<close>

definition turn_inv :: "system \<Rightarrow> bool" where
  "turn_inv S \<longleftrightarrow>
     (\<forall>x\<in>set (timers (win S)). handle x < next_handle (win S) \<and> callback x \<noteq> idle) \<and>
     (\<forall>t\<in>set (in_flight S).
        stageTimer1 t < next_handle (win S) \<and> stageTimer2 t < next_handle (win S)) \<and>
     (case in_flight S of
        [] \<Rightarrow> loadingStage (win S) = idle \<and> timers (win S) = []
      | t # ts \<Rightarrow>
          ts = [] \<and> loadingStage (win S) \<noteq> idle \<and>
          (\<forall>x\<in>set (timers (win S)). handle x = stageTimer1 t \<or> handle x = stageTimer2 t))"

text \<open>A handle that was allocated and is no longer pending.\<close>

definition spent :: "nat \<Rightarrow> system \<Rightarrow> bool" where
  "spent h S \<longleftrightarrow> h < next_handle (win S) \<and> h \<notin> handle ` set (timers (win S))"

section \<open>JSON.stringify and JSON.parse\<close>

text \<open>
  The two built-ins that \<open>Home\<close> uses on the stored session, after ECMA-262
  (\<open>QuoteJSONString\<close>, \<open>SerializeJSONProperty\<close>) and the JSON grammar of ECMA-404.
  Code units are given by number: 34 is the double quote, 92 the backslash, 117 \<open>u\<close>,
  123 and 125 the braces, 91 and 93 the brackets, 58 the colon, 44 the comma.
\<close>

text \<open>
  A lower-case hexadecimal digit, and the six-character escape of a code unit: a
  backslash, \<open>u\<close> and four hexadecimal digits.
\<close>

definition hex_digit :: "nat \<Rightarrow> nat" where
  "hex_digit n = (if n < 10 then 48 + n else 87 + n)"

definition unicode_escape :: "nat \<Rightarrow> jsstring" where
  "unicode_escape c =
     [92, 117, hex_digit (c div 4096 mod 16), hex_digit (c div 256 mod 16),
      hex_digit (c div 16 mod 16), hex_digit (c mod 16)]"

definition high_surrogate :: "nat \<Rightarrow> bool" where
  "high_surrogate c \<longleftrightarrow> 55296 \<le> c \<and> c \<le> 56319"

definition low_surrogate :: "nat \<Rightarrow> bool" where
  "low_surrogate c \<longleftrightarrow> 56320 \<le> c \<and> c \<le> 57343"

text \<open>
  The characters of a quoted string: the short escapes for backspace, tab, line feed,
  form feed, carriage return, the quote and the backslash; the six-character escape for the other
  control characters and for a surrogate that is not half of a pair; everything else as
  it is.
\<close>

fun quote_chars :: "jsstring \<Rightarrow> jsstring" where
  "quote_chars [] = []"
| "quote_chars (c # cs) =
     (if c = 8 then [92, 98] @ quote_chars cs
      else if c = 9 then [92, 116] @ quote_chars cs
      else if c = 10 then [92, 110] @ quote_chars cs
      else if c = 12 then [92, 102] @ quote_chars cs
      else if c = 13 then [92, 114] @ quote_chars cs
      else if c = 34 then [92, 34] @ quote_chars cs
      else if c = 92 then [92, 92] @ quote_chars cs
      else if c < 32 then unicode_escape c @ quote_chars cs
      else if high_surrogate c then
        (case cs of
           [] \<Rightarrow> unicode_escape c
         | d # ds \<Rightarrow>
             if low_surrogate d then c # d # quote_chars ds
             else unicode_escape c @ quote_chars cs)
      else if low_surrogate c then unicode_escape c @ quote_chars cs
      else c # quote_chars cs)"

definition QuoteJSONString :: "jsstring \<Rightarrow> jsstring" where
  "QuoteJSONString s = [34] @ quote_chars s @ [34]"

text \<open>The elements separated by \<open>sep\<close>.\<close>

fun join :: "jsstring \<Rightarrow> jsstring list \<Rightarrow> jsstring" where
  "join sep [] = []"
| "join sep [x] = x"
| "join sep (x # y # ys) = x @ sep @ join sep (y # ys)"

text \<open>
  \<open>JSON.stringify\<close> with no replacer and no indentation. No value of \<open>json\<close> is
  \<open>undefined\<close> or a function, so no member is left out.
\<close>

primrec JSON_stringify :: "json \<Rightarrow> jsstring" where
  "JSON_stringify JNull = lit ''null''"
| "JSON_stringify (JBool b) = (if b then lit ''true'' else lit ''false'')"
| "JSON_stringify (JNumber l) = l"
| "JSON_stringify (JString s) = QuoteJSONString s"
| "JSON_stringify (JArray vs) = [91] @ join [44] (map JSON_stringify vs) @ [93]"
| "JSON_stringify (JObject ps) =
     [123] @ join [44] (map (\<lambda>p. QuoteJSONString (fst p) @ [58] @ snd p)
                            (map (map_prod id JSON_stringify) ps)) @ [125]"


text \<open>
  \<open>JSON.parse\<close> with no reviver, in two passes: the text is cut into tokens, and a
  pushdown automaton builds the value from the tokens. \<open>None\<close> is the
  \<open>SyntaxError\<close> that \<open>JSON.parse\<close> throws.
\<close>

datatype token =
  TLBrace | TRBrace | TLBrack | TRBrack | TColon | TComma
  | TStr jsstring | TNum jsstring | TWord jsstring

definition is_digit :: "nat \<Rightarrow> bool" where
  "is_digit c \<longleftrightarrow> 48 \<le> c \<and> c \<le> 57"

definition hex_value :: "nat \<Rightarrow> nat option" where
  "hex_value c =
     (if 48 \<le> c \<and> c \<le> 57 then Some (c - 48)
      else if 97 \<le> c \<and> c \<le> 102 then Some (c - 87)
      else if 65 \<le> c \<and> c \<le> 70 then Some (c - 55)
      else None)"

definition unescape :: "nat \<Rightarrow> nat option" where
  "unescape e =
     (if e = 34 then Some 34 else if e = 92 then Some 92 else if e = 47 then Some 47
      else if e = 98 then Some 8 else if e = 102 then Some 12 else if e = 110 then Some 10
      else if e = 114 then Some 13 else if e = 116 then Some 9 else None)"

text \<open>
  The number grammar: an optional minus, then \<open>0\<close> or a non-zero digit and digits, an
  optional fraction of a point and at least one digit, an optional exponent of \<open>e\<close> or
  \<open>E\<close>, an optional sign and at least one digit.
\<close>

definition exponent_ok :: "jsstring \<Rightarrow> bool" where
  "exponent_ok r =
     (case r of
        [] \<Rightarrow> True
      | c # r1 \<Rightarrow>
          (c = 101 \<or> c = 69) \<and>
          (let r2 = (case r1 of [] \<Rightarrow> [] | s # r' \<Rightarrow> if s = 43 \<or> s = 45 then r' else r1)
           in r2 \<noteq> [] \<and> list_all is_digit r2))"

definition fraction_ok :: "jsstring \<Rightarrow> bool" where
  "fraction_ok r =
     (case r of
        [] \<Rightarrow> True
      | c # r1 \<Rightarrow>
          if c = 46 then takeWhile is_digit r1 \<noteq> [] \<and> exponent_ok (dropWhile is_digit r1)
          else exponent_ok r)"

definition valid_number :: "jsstring \<Rightarrow> bool" where
  "valid_number l =
     (let l1 = (case l of [] \<Rightarrow> [] | c # r \<Rightarrow> if c = 45 then r else l)
      in case l1 of
           [] \<Rightarrow> False
         | c # r \<Rightarrow>
             if c = 48 then fraction_ok r
             else if 49 \<le> c \<and> c \<le> 57 then fraction_ok (dropWhile is_digit r)
             else False)"

definition cons_tok :: "token \<Rightarrow> token list option \<Rightarrow> token list option" where
  "cons_tok t r = map_option ((#) t) r"

definition is_numchar :: "nat \<Rightarrow> bool" where
  "is_numchar c \<longleftrightarrow> is_digit c \<or> c = 43 \<or> c = 45 \<or> c = 46 \<or> c = 101 \<or> c = 69"

definition is_lower :: "nat \<Rightarrow> bool" where
  "is_lower c \<longleftrightarrow> 97 \<le> c \<and> c \<le> 122"

definition punct :: "nat \<Rightarrow> token option" where
  "punct c =
     (if c = 123 then Some TLBrace else if c = 125 then Some TRBrace
      else if c = 91 then Some TLBrack else if c = 93 then Some TRBrack
      else if c = 58 then Some TColon else if c = 44 then Some TComma else None)"

text \<open>
  The lexer. White space between tokens is tab, line feed, carriage return and space.
  \<open>lexer_str\<close> reads a string up to its closing quote, \<open>acc\<close> being the characters
  read so far: an escape is one of the eight short ones or \<open>u\<close> and four hexadecimal
  digits, and a control character is refused. \<open>lexer_num\<close> and \<open>lexer_word\<close> collect
  the characters of a number and of a literal name.
\<close>

fun lexer :: "jsstring \<Rightarrow> token list option"
  and lexer_str :: "jsstring \<Rightarrow> jsstring \<Rightarrow> token list option"
  and lexer_num :: "jsstring \<Rightarrow> jsstring \<Rightarrow> token list option"
  and lexer_word :: "jsstring \<Rightarrow> jsstring \<Rightarrow> token list option"
where
  "lexer [] = Some []"
| "lexer (c # cs) =
     (if c = 9 \<or> c = 10 \<or> c = 13 \<or> c = 32 then lexer cs
      else if c = 34 then lexer_str [] cs
      else if c = 45 \<or> is_digit c then lexer_num [c] cs
      else if is_lower c then lexer_word [c] cs
      else (case punct c of None \<Rightarrow> None | Some t \<Rightarrow> cons_tok t (lexer cs)))"
| "lexer_str acc [] = None"
| "lexer_str acc (c # cs) =
     (if c = 34 then cons_tok (TStr acc) (lexer cs)
      else if c = 92 then
        (case cs of
           [] \<Rightarrow> None
         | e # es \<Rightarrow>
             if e = 117 then
               (case es of
                  h1 # h2 # h3 # h4 # rest \<Rightarrow>
                    (case (hex_value h1, hex_value h2, hex_value h3, hex_value h4) of
                       (Some a, Some b, Some c, Some d) \<Rightarrow>
                         lexer_str (acc @ [4096 * a + 256 * b + 16 * c + d]) rest
                     | _ \<Rightarrow> None)
                | _ \<Rightarrow> None)
             else (case unescape e of None \<Rightarrow> None | Some x \<Rightarrow> lexer_str (acc @ [x]) es))
      else if c < 32 then None
      else lexer_str (acc @ [c]) cs)"
| "lexer_num acc [] = (if valid_number acc then Some [TNum acc] else None)"
| "lexer_num acc (c # cs) =
     (if is_numchar c then lexer_num (acc @ [c]) cs
      else if valid_number acc then cons_tok (TNum acc) (lexer (c # cs))
      else None)"
| "lexer_word acc [] = Some [TWord acc]"
| "lexer_word acc (c # cs) =
     (if is_lower c then lexer_word (acc @ [c]) cs
      else cons_tok (TWord acc) (lexer (c # cs)))"


text \<open>
  The parser. The stack holds the arrays and objects that are open, with the elements
  or members read so far, and above an object the key whose value is being read. The
  state says what may come next: a value; a value or the end of an array just opened; a
  key or the end of an object just opened; a key; a colon; or, after a complete value
  \<open>v\<close>, a comma, a closing bracket, or the end of the text.
\<close>

datatype ctx = CArr "json list" | CObj "(jsstring \<times> json) list" | CKey jsstring

datatype pstate = PValue | PArrStart | PObjStart | PObjKey | PColon | PAfter json

definition word_value :: "jsstring \<Rightarrow> json option" where
  "word_value w =
     (if w = lit ''true'' then Some (JBool True)
      else if w = lit ''false'' then Some (JBool False)
      else if w = lit ''null'' then Some JNull
      else None)"

definition start_value :: "ctx list \<Rightarrow> token \<Rightarrow> (pstate \<times> ctx list) option" where
  "start_value st t =
     (case t of
        TLBrace \<Rightarrow> Some (PObjStart, CObj [] # st)
      | TLBrack \<Rightarrow> Some (PArrStart, CArr [] # st)
      | TStr s \<Rightarrow> Some (PAfter (JString s), st)
      | TNum l \<Rightarrow> Some (PAfter (JNumber l), st)
      | TWord w \<Rightarrow> (case word_value w of None \<Rightarrow> None | Some v \<Rightarrow> Some (PAfter v, st))
      | _ \<Rightarrow> None)"

definition start_key :: "ctx list \<Rightarrow> token \<Rightarrow> (pstate \<times> ctx list) option" where
  "start_key st t = (case t of TStr k \<Rightarrow> Some (PColon, CKey k # st) | _ \<Rightarrow> None)"

definition after_value :: "json \<Rightarrow> ctx list \<Rightarrow> token \<Rightarrow> (pstate \<times> ctx list) option" where
  "after_value v st t =
     (case st of
        CArr es # st' \<Rightarrow>
          (case t of
             TComma \<Rightarrow> Some (PValue, CArr (es @ [v]) # st')
           | TRBrack \<Rightarrow> Some (PAfter (JArray (es @ [v])), st')
           | _ \<Rightarrow> None)
      | CKey k # CObj ps # st' \<Rightarrow>
          (case t of
             TComma \<Rightarrow> Some (PObjKey, CObj (ps @ [(k, v)]) # st')
           | TRBrace \<Rightarrow> Some (PAfter (JObject (ps @ [(k, v)])), st')
           | _ \<Rightarrow> None)
      | _ \<Rightarrow> None)"

fun pstep :: "pstate \<times> ctx list \<Rightarrow> token \<Rightarrow> (pstate \<times> ctx list) option" where
  "pstep (PValue, st) t = start_value st t"
| "pstep (PArrStart, st) t =
     (case (t, st) of
        (TRBrack, CArr es # st') \<Rightarrow> Some (PAfter (JArray es), st')
      | _ \<Rightarrow> start_value st t)"
| "pstep (PObjStart, st) t =
     (case (t, st) of
        (TRBrace, CObj ps # st') \<Rightarrow> Some (PAfter (JObject ps), st')
      | _ \<Rightarrow> start_key st t)"
| "pstep (PObjKey, st) t = start_key st t"
| "pstep (PColon, st) t = (case t of TColon \<Rightarrow> Some (PValue, st) | _ \<Rightarrow> None)"
| "pstep (PAfter v, st) t = after_value v st t"

fun prun :: "pstate \<times> ctx list \<Rightarrow> token list \<Rightarrow> json option" where
  "prun cfg [] = (case cfg of (PAfter v, []) \<Rightarrow> Some v | _ \<Rightarrow> None)"
| "prun cfg (t # ts) = (case pstep cfg t of None \<Rightarrow> None | Some cfg' \<Rightarrow> prun cfg' ts)"

definition JSON_parse :: "jsstring \<Rightarrow> json option" where
  "JSON_parse s = (case lexer s of None \<Rightarrow> None | Some ts \<Rightarrow> prun (PValue, []) ts)"

section \<open>app/page.tsx\<close>

text \<open>
  The state of \<open>Home\<close>. \<open>user\<close> holds whatever \<open>setUser\<close> was given: the object
  built from the callback, or the value that \<open>JSON.parse\<close> returned; \<open>JNull\<close> is
  \<open>null\<close>.
\<close>

record Home =
  user :: json
  loading :: bool

definition Home_init :: Home where
  "Home_init = \<lparr>user = JNull, loading = True\<rparr>"

text \<open>\<open>params.get(k)\<close>: the first value of the key, or null.\<close>

definition params_get :: "browser \<Rightarrow> jsstring \<Rightarrow> jsstring option" where
  "params_get b k = map_of (location_search b) k"

text \<open>\<open>x || d\<close> for a string or null \<open>x\<close>.\<close>

definition or_default :: "jsstring option \<Rightarrow> jsstring \<Rightarrow> jsstring" where
  "or_default x d = (if truthy x then the x else d)"

text \<open>The object literal \<open>{token, name: ..., email, picture: ...}\<close>, members in its order.\<close>

definition newUser :: "jsstring \<Rightarrow> jsstring option \<Rightarrow> jsstring \<Rightarrow> jsstring option \<Rightarrow> json" where
  "newUser token name_param email picture_param =
     JObject [(lit ''token'', JString token),
              (lit ''name'', JString (or_default name_param (lit ''User''))),
              (lit ''email'', JString email),
              (lit ''picture'', JString (or_default picture_param []))]"

text \<open>
  The mount effect of \<open>Home\<close>: it runs once for each load of the page, on the browser
  state that the load finds. Its two branches are named: \<open>Home_effect_callback\<close> is
  the branch taken when both \<open>token\<close> and \<open>email\<close> are truthy, and
  \<open>Home_effect_restore\<close> is the \<open>else\<close> branch; \<open>setLoading(false)\<close> follows
  both.
\<close>

definition Home_effect_callback ::
  "jsstring \<Rightarrow> jsstring option \<Rightarrow> jsstring \<Rightarrow> jsstring option \<Rightarrow> browser \<Rightarrow> Home \<Rightarrow> browser \<times> Home" where
  "Home_effect_callback token name_param email picture_param b h =
     (let u = newUser token name_param email picture_param;
          b1 = setItem (lit ''user'') (JSON_stringify u) b;
          h1 = h\<lparr>user := u\<rparr>;
          b2 = to_root b1
      in (b2, h1))"

definition Home_effect_restore :: "browser \<Rightarrow> Home \<Rightarrow> browser \<times> Home" where
  "Home_effect_restore b h =
     (case getItem (lit ''user'') b of
        None \<Rightarrow> (b, h)
      | Some stored \<Rightarrow>
          if stored = [] then (b, h)
          else
            (case JSON_parse stored of
               Some v \<Rightarrow> (b, h\<lparr>user := v\<rparr>)
             | None \<Rightarrow> (removeItem (lit ''user'') b, h)))"

definition Home_effect :: "browser \<Rightarrow> Home \<Rightarrow> browser \<times> Home" where
  "Home_effect b h =
     (let token = params_get b (lit ''token'');
          name_param = params_get b (lit ''name'');
          email = params_get b (lit ''email'');
          picture_param = params_get b (lit ''picture'');
          (b', h') =
            (if truthy token \<and> truthy email then
               Home_effect_callback (the token) name_param (the email) picture_param b h
             else Home_effect_restore b h)
      in (b', h'\<lparr>loading := False\<rparr>))"

text \<open>A load of the page: a fresh \<open>Home\<close> runs its effect on the browser state.\<close>

definition page_load :: "browser \<Rightarrow> browser \<times> Home" where
  "page_load b = Home_effect b Home_init"

section \<open>components/FolderSelector.tsx\<close>

text \<open>
  The state of \<open>FolderSelector\<close>, with the bookkeeping of its effect: the dependency
  values of the last run (\<open>None\<close> before the first render), the log of the
  \<open>fetchFolders\<close> calls issued (the token each was given), and how many of them have
  not settled.
\<close>

record FolderSelector =
  folders :: "Folder list"
  isOpen :: bool
  search :: jsstring
  loading :: bool
  last_deps :: "(bool \<times> jsstring \<times> nat) option"
  calls :: "jsstring list"
  pending :: nat

definition FolderSelector_init :: FolderSelector where
  "FolderSelector_init =
     \<lparr>folders = [], isOpen = False, search = [], loading = False,
      last_deps = None, calls = [], pending = 0\<rparr>"

text \<open>The body of the effect.\<close>

definition FolderSelector_effect :: "jsstring \<Rightarrow> FolderSelector \<Rightarrow> FolderSelector" where
  "FolderSelector_effect token s =
     (if isOpen s \<and> length (folders s) = 0 then
        s\<lparr>loading := True, calls := calls s @ [token], pending := Suc (pending s)\<rparr>
      else s)"

text \<open>
  A render commits, and React runs the effect when it has not run yet or one of
  \<open>[isOpen, token, folders.length]\<close> differs from its value at the last run.
\<close>

definition render :: "jsstring \<Rightarrow> FolderSelector \<Rightarrow> FolderSelector" where
  "render token s =
     (let deps = (isOpen s, token, length (folders s))
      in if last_deps s = Some deps then s
         else FolderSelector_effect token (s\<lparr>last_deps := Some deps\<rparr>))"

text \<open>
  The events of the selector: a click on its button (\<open>setIsOpen(!isOpen)\<close>), a click
  that closes it (the backdrop or the choice of an entry), an edit of the search box,
  and the oldest outstanding \<open>fetchFolders\<close> promise settling:
  \<open>.then(setFolders).finally(() => setLoading(false))\<close>.
\<close>

datatype folder_event =
    Toggle
  | Close
  | SetSearch jsstring
  | Settled "exn + Folder list"

fun folder_update :: "FolderSelector \<Rightarrow> folder_event \<Rightarrow> FolderSelector" where
  "folder_update s Toggle = s\<lparr>isOpen := \<not> isOpen s\<rparr>"
| "folder_update s Close = s\<lparr>isOpen := False\<rparr>"
| "folder_update s (SetSearch txt) = s\<lparr>search := txt\<rparr>"
| "folder_update s (Settled res) =
     (if pending s = 0 then s
      else
        (case res of
           Inr fs \<Rightarrow> s\<lparr>folders := fs, loading := False, pending := pending s - 1\<rparr>
         | Inl e \<Rightarrow> s\<lparr>loading := False, pending := pending s - 1\<rparr>))"

definition folder_step :: "jsstring \<Rightarrow> FolderSelector \<Rightarrow> folder_event \<Rightarrow> FolderSelector" where
  "folder_step token s ev = render token (folder_update s ev)"

definition FolderSelector_mount :: "jsstring \<Rightarrow> FolderSelector" where
  "FolderSelector_mount token = render token FolderSelector_init"

definition folder_run :: "jsstring \<Rightarrow> FolderSelector \<Rightarrow> folder_event list \<Rightarrow> FolderSelector" where
  "folder_run token s evs = foldl (folder_step token) s evs"

section \<open>Properties of lib/api.ts\<close>

text \<open>
  C3. \<open>sendChatMessage\<close>: on status 401 the persisted session entry is removed, the
  address goes to the root and the call fails with the session-expired error; on any
  other status outside 200..299 the call fails with an error whose message carries the
  status in decimal and the raw body text, leaving the browser state alone; on a status
  in 200..299 the decoded response is returned as it is.
\<close>

theorem sendChatMessage_outcomes:
  "(status r = 401 \<longrightarrow>
      sendChatMessage b (Resolved r) =
        (to_root (removeItem (lit ''user'') b),
         Inl (Error (lit ''Session expired. Please log in again.''))) \<and>
      getItem (lit ''user'') (fst (sendChatMessage b (Resolved r))) = None) \<and>
   (status r \<noteq> 401 \<and> \<not> ok r \<and> text_body r = Inr t \<longrightarrow>
      sendChatMessage b (Resolved r) =
        (b, Inl (Error (lit ''API error '' @ nat_to_string (status r) @ lit '': '' @ t)))) \<and>
   (ok r \<and> json_body r = Inr d \<longrightarrow> sendChatMessage b (Resolved r) = (b, Inr d))"
  by (auto simp: sendChatMessage_def ok_def removeItem_def getItem_def to_root_def)

theorem sendChatMessage_outcomes_witness:
  "(let b = \<lparr>localStorage = [lit ''user'' \<mapsto> lit ''{}''], pathname = lit ''/chat'', location_search = []\<rparr>;
        r401 = \<lparr>status = 401, text_body = Inr (lit ''denied''),
                json_body = Inl (Error (lit ''SyntaxError''))\<rparr>;
        r500 = \<lparr>status = 500, text_body = Inr (lit ''boom''),
                json_body = Inl (Error (lit ''SyntaxError''))\<rparr>;
        d = \<lparr>answer = lit ''Found 3 PDFs'', intermediate_steps = [], tokens = 42, error = None\<rparr>;
        r200 = \<lparr>status = 200, text_body = Inr (lit ''{}''), json_body = Inr d\<rparr>
    in status r401 = 401 \<and>
       getItem (lit ''user'') (fst (sendChatMessage b (Resolved r401))) = None \<and>
       snd (sendChatMessage b (Resolved r401)) =
         Inl (Error (lit ''Session expired. Please log in again.'')) \<and>
       status r500 \<noteq> 401 \<and> \<not> ok r500 \<and> text_body r500 = Inr (lit ''boom'') \<and>
       sendChatMessage b (Resolved r500) = (b, Inl (Error (lit ''API error 500: boom''))) \<and>
       ok r200 \<and> json_body r200 = Inr d \<and>
       sendChatMessage b (Resolved r200) = (b, Inr d))"
proof -
  let ?b = "\<lparr>localStorage = [lit ''user'' \<mapsto> lit ''{}''], pathname = lit ''/chat'', location_search = []\<rparr>"
  let ?r401 = "\<lparr>status = 401, text_body = Inr (lit ''denied''),
                json_body = Inl (Error (lit ''SyntaxError''))\<rparr> :: ChatResponse response"
  let ?r500 = "\<lparr>status = 500, text_body = Inr (lit ''boom''),
                json_body = Inl (Error (lit ''SyntaxError''))\<rparr> :: ChatResponse response"
  let ?d = "\<lparr>answer = lit ''Found 3 PDFs'', intermediate_steps = [], tokens = 42, error = None\<rparr>"
  let ?r200 = "\<lparr>status = 200, text_body = Inr (lit ''{}''), json_body = Inr ?d\<rparr>"
  note unauthorised = sendChatMessage_outcomes [of ?r401 ?b]
  note server_error = sendChatMessage_outcomes [of ?r500 ?b "lit ''boom''"]
  note success = sendChatMessage_outcomes [of ?r200 ?b _ ?d]
  show ?thesis using unauthorised server_error success
    by (simp add: Let_def ok_def nat_to_string.simps lit_def getItem_def removeItem_def to_root_def)
qed

text \<open>
  C6. When \<open>fetch\<close> rejects, \<open>fetchFolders\<close> rejects with the same value: it does
  not return an empty sequence. \<open>fetchUserInfo\<close>, on the same rejection, returns
  null.
\<close>

theorem fetchFolders_rejection_propagates:
  "fetchFolders (Rejected e) = Inl e \<and> fetchUserInfo tok (Rejected e) = Inr JNull"
  by (simp add: fetchFolders_def fetchUserInfo_def)


section \<open>Properties of ChatWindow\<close>

lemma trim_Nil_iff: "trim s = [] \<longleftrightarrow> (\<forall>c\<in>set s. is_ws c)"
proof
  assume "trim s = []"
  then have a: "\<forall>c\<in>set (dropWhile is_ws s). is_ws c"
    by (simp add: trim_def dropWhile_eq_Nil_conv)
  have "dropWhile is_ws s = []"
  proof (rule ccontr)
    assume n: "dropWhile is_ws s \<noteq> []"
    then have "\<not> is_ws (hd (dropWhile is_ws s))" by (rule hd_dropWhile)
    moreover have "hd (dropWhile is_ws s) \<in> set (dropWhile is_ws s)" using n by simp
    ultimately show False using a by blast
  qed
  then show "\<forall>c\<in>set s. is_ws c" by (simp add: dropWhile_eq_Nil_conv)
next
  assume "\<forall>c\<in>set s. is_ws c"
  then have e: "dropWhile is_ws s = []" by (simp add: dropWhile_eq_Nil_conv)
  show "trim s = []" by (simp only: trim_def e rev.simps dropWhile.simps)
qed

lemma handleSend_reject:
  "(\<forall>c\<in>set (input w). is_ws c) \<or> loadingStage w \<noteq> idle \<Longrightarrow> handleSend fresh now tok w = (w, None)"
  using trim_Nil_iff [of "input w"] by (auto simp: handleSend_def Let_def)

lemma handleSend_accept:
  "\<not> (\<forall>c\<in>set (input w). is_ws c) \<Longrightarrow> loadingStage w = idle \<Longrightarrow>
   handleSend fresh now tok w =
     (w\<lparr>messages := messages w @ [\<lparr>id_msg = fresh, role = Role_user, content = trim (input w),
            timestamp = now, steps = None, isError = None, tokens = None\<rparr>],
        input := [], loadingStage := searching,
        timers := timers w @ [\<lparr>handle = next_handle w, delay = 3500, callback = reading\<rparr>,
                              \<lparr>handle = Suc (next_handle w), delay = 8000, callback = thinking\<rparr>],
        next_handle := Suc (Suc (next_handle w))\<rparr>,
      Some (sendChatMessage_request (trim (input w))
              (map (\<lambda>m. (role m, content m)) (slice_last 10 (messages w))) tok
              (or_undefined (selectedFolderId w)),
            \<lparr>stageTimer1 = next_handle w, stageTimer2 = Suc (next_handle w)\<rparr>))"
  using trim_Nil_iff [of "input w"] by (simp add: handleSend_def Let_def setTimeout_def)

lemma handleSend_resume_shape:
  "\<exists>m. handleSend_resume fresh now t res w =
     w\<lparr>timers := filter (\<lambda>x. handle x \<noteq> stageTimer1 t \<and> handle x \<noteq> stageTimer2 t) (timers w),
       loadingStage := idle, messages := messages w @ [m]\<rparr>"
  by (cases res) (auto simp: handleSend_resume_def Let_def clearTimeout_def conj_commute)

lemma turn_inv_init: "turn_inv (system_init tok b)"
  by (simp add: turn_inv_def system_init_def ChatWindow_init_def)

lemma timer_fire_cases:
  "timer_fire h w = w \<or>
   (\<exists>x\<in>set (timers w). handle x = h \<and>
      timer_fire h w = w\<lparr>timers := filter (\<lambda>t. handle t \<noteq> h) (timers w), loadingStage := callback x\<rparr>)"
proof (cases "find (\<lambda>t. handle t = h) (timers w)")
  case None
  then show ?thesis by (simp add: timer_fire_def)
next
  case (Some x)
  then have "x \<in> set (timers w) \<and> handle x = h"
    by (auto simp: find_Some_iff)
  with Some show ?thesis by (auto simp: timer_fire_def clearTimeout_def)
qed

lemma timer_fire_not_pending:
  "h \<notin> handle ` set (timers w) \<Longrightarrow> timer_fire h w = w"
  using timer_fire_cases [of h w] by auto

lemma turn_inv_Send: "turn_inv S \<Longrightarrow> turn_inv (step S (Send fresh now))"
proof (cases "(\<forall>c\<in>set (input (win S)). is_ws c) \<or> loadingStage (win S) \<noteq> idle")
  case True
  assume "turn_inv S"
  with handleSend_reject [OF True] show ?thesis by (simp add: turn_inv_def)
next
  case False
  assume i: "turn_inv S"
  from False have a: "\<not> (\<forall>c\<in>set (input (win S)). is_ws c)" and b: "loadingStage (win S) = idle"
    by auto
  from i b have e: "in_flight S = []" "timers (win S) = []"
    by (auto simp: turn_inv_def split: list.splits)
  show ?thesis using i e
    by (simp add: handleSend_accept [OF a b] turn_inv_def)
qed

lemma turn_inv_Fire: "turn_inv S \<Longrightarrow> turn_inv (step S (Fire h))"
  using timer_fire_cases [of h "win S"]
  by (auto simp: turn_inv_def split: list.splits)

lemma turn_inv_Settle: "turn_inv S \<Longrightarrow> turn_inv (step S (Settle k out fresh now))"
proof (cases "k < length (in_flight S)")
  case False
  assume "turn_inv S"
  with False show ?thesis by simp
next
  case True
  assume i: "turn_inv S"
  with True obtain t where t: "in_flight S = [t]" "k = 0"
    by (auto simp: turn_inv_def split: list.splits)
  obtain b res where r: "sendChatMessage (env S) out = (b, res)" by (cases "sendChatMessage (env S) out")
  obtain m where m: "handleSend_resume fresh now t res (win S) =
     (win S)\<lparr>timers := filter (\<lambda>x. handle x \<noteq> stageTimer1 t \<and> handle x \<noteq> stageTimer2 t) (timers (win S)),
       loadingStage := idle, messages := messages (win S) @ [m]\<rparr>"
    using handleSend_resume_shape by blast
  have "filter (\<lambda>x. handle x \<noteq> stageTimer1 t \<and> handle x \<noteq> stageTimer2 t) (timers (win S)) = []"
    using i t by (auto simp: turn_inv_def filter_empty_conv)
  then show ?thesis using i t r m
    by (simp add: turn_inv_def remove_nth_def)
qed

lemma turn_inv_step: "turn_inv S \<Longrightarrow> turn_inv (step S e)"
proof (cases e)
  case (Send x21 x22)
  assume "turn_inv S" then show ?thesis unfolding Send by (rule turn_inv_Send)
next
  case (Fire h)
  assume "turn_inv S" then show ?thesis unfolding Fire by (rule turn_inv_Fire)
next
  case (Settle k out fresh now)
  assume "turn_inv S" then show ?thesis unfolding Settle by (rule turn_inv_Settle)
qed (auto simp: turn_inv_def handleClear_def split: list.splits)

lemma turn_inv_run: "turn_inv S \<Longrightarrow> turn_inv (run S evs)"
  unfolding run_def by (induction evs arbitrary: S) (simp_all add: turn_inv_step)

lemma spent_step: "spent h S \<Longrightarrow> spent h (step S e)"
proof (cases e)
  case (Send fresh now)
  assume s: "spent h S"
  show ?thesis
  proof (cases "(\<forall>c\<in>set (input (win S)). is_ws c) \<or> loadingStage (win S) \<noteq> idle")
    case True
    with s show ?thesis unfolding Send using handleSend_reject [OF True] by (simp add: spent_def)
  next
    case False
    then have a: "\<not> (\<forall>c\<in>set (input (win S)). is_ws c)" and b: "loadingStage (win S) = idle"
      by auto
    show ?thesis using s unfolding Send
      by (auto simp add: handleSend_accept [OF a b] spent_def)
  qed
next
  case (Fire g)
  assume "spent h S"
  then show ?thesis unfolding Fire using timer_fire_cases [of g "win S"]
    by (auto simp: spent_def)
next
  case (Settle k out fresh now)
  assume s: "spent h S"
  obtain b res where r: "sendChatMessage (env S) out = (b, res)" by (cases "sendChatMessage (env S) out")
  obtain m where m: "handleSend_resume fresh now (in_flight S ! k) res (win S) =
     (win S)\<lparr>timers := filter (\<lambda>x. handle x \<noteq> stageTimer1 (in_flight S ! k) \<and> handle x \<noteq> stageTimer2 (in_flight S ! k)) (timers (win S)),
       loadingStage := idle, messages := messages (win S) @ [m]\<rparr>"
    using handleSend_resume_shape by blast
  show ?thesis using s r m unfolding Settle by (auto simp: spent_def)
qed (auto simp: spent_def handleClear_def)

lemma spent_run: "spent h S \<Longrightarrow> spent h (run S evs)"
  unfolding run_def by (induction evs arbitrary: S) (simp_all add: spent_step)

lemma settle_spent:
  assumes "turn_inv S" and "k < length (in_flight S)"
  shows "loadingStage (win (step S (Settle k out fresh now))) = idle"
    and "spent (stageTimer1 (in_flight S ! k)) (step S (Settle k out fresh now))"
    and "spent (stageTimer2 (in_flight S ! k)) (step S (Settle k out fresh now))"
proof -
  let ?t = "in_flight S ! k"
  obtain b res where r: "sendChatMessage (env S) out = (b, res)" by (cases "sendChatMessage (env S) out")
  obtain m where m: "handleSend_resume fresh now ?t res (win S) =
     (win S)\<lparr>timers := filter (\<lambda>x. handle x \<noteq> stageTimer1 ?t \<and> handle x \<noteq> stageTimer2 ?t) (timers (win S)),
       loadingStage := idle, messages := messages (win S) @ [m]\<rparr>"
    using handleSend_resume_shape by blast
  have "?t \<in> set (in_flight S)" using assms(2) by simp
  then have lt: "stageTimer1 ?t < next_handle (win S)" "stageTimer2 ?t < next_handle (win S)"
    using assms(1) by (auto simp: turn_inv_def)
  show "loadingStage (win (step S (Settle k out fresh now))) = idle"
    using assms(2) r m by simp
  show "spent (stageTimer1 ?t) (step S (Settle k out fresh now))"
    using assms(2) r m lt by (auto simp: spent_def)
  show "spent (stageTimer2 ?t) (step S (Settle k out fresh now))"
    using assms(2) r m lt by (auto simp: spent_def)
qed

text \<open>
  C1. In every state reachable from the initial one, when the \<open>fetch\<close> of a suspended
  turn settles, whatever the outcome (a rejection, a 401, another status outside
  200..299, or a success), the stage is idle afterwards, and from then on, whatever
  events follow, neither of the two stage timers of that turn is pending and letting
  one of them come due changes nothing.
\<close>

theorem turn_resolution_returns_to_idle:
  assumes "S = run (system_init tok b) evs" and "k < length (in_flight S)"
  shows "loadingStage (win (step S (Settle k out fresh now))) = idle \<and>
         (\<forall>later. \<forall>h \<in> {stageTimer1 (in_flight S ! k), stageTimer2 (in_flight S ! k)}.
            h \<notin> handle ` set (timers (win (run (step S (Settle k out fresh now)) later))) \<and>
            step (run (step S (Settle k out fresh now)) later) (Fire h) =
              run (step S (Settle k out fresh now)) later)"
proof -
  have i: "turn_inv S" unfolding assms(1) by (rule turn_inv_run [OF turn_inv_init])
  note s = settle_spent [OF i assms(2), of out fresh now]
  have g: "\<And>later h. spent h (step S (Settle k out fresh now)) \<Longrightarrow>
          h \<notin> handle ` set (timers (win (run (step S (Settle k out fresh now)) later))) \<and>
          step (run (step S (Settle k out fresh now)) later) (Fire h) =
            run (step S (Settle k out fresh now)) later"
  proof -
    fix later h
    assume "spent h (step S (Settle k out fresh now))"
    then have "spent h (run (step S (Settle k out fresh now)) later)" by (rule spent_run)
    then have n: "h \<notin> handle ` set (timers (win (run (step S (Settle k out fresh now)) later)))"
      by (simp add: spent_def)
    then show "h \<notin> handle ` set (timers (win (run (step S (Settle k out fresh now)) later))) \<and>
          step (run (step S (Settle k out fresh now)) later) (Fire h) =
            run (step S (Settle k out fresh now)) later"
      by (simp add: timer_fire_not_pending)
  qed
  show ?thesis using s(1) g [OF s(2)] g [OF s(3)] by simp
qed

text \<open>
  C2. A call of \<open>handleSend\<close> while the input is empty or all white space, or while
  the stage is not idle, changes nothing: no message is appended, the stage stays, no
  request is dispatched. In every reachable state at most one request is outstanding,
  and while one is outstanding the stage is not idle, so a further call dispatches
  nothing.
\<close>

theorem submit_rejected_while_busy:
  "((\<forall>c\<in>set (input (win S)). is_ws c) \<or> loadingStage (win S) \<noteq> idle \<longrightarrow>
      step S (Send fresh now) = S) \<and>
   (let R = run (system_init tok b) evs
    in length (in_flight R) \<le> 1 \<and>
       (in_flight R \<noteq> [] \<longrightarrow> loadingStage (win R) \<noteq> idle \<and> sent (step R (Send fresh now)) = sent R))"
proof -
  have a: "(\<forall>c\<in>set (input (win S)). is_ws c) \<or> loadingStage (win S) \<noteq> idle \<longrightarrow>
      step S (Send fresh now) = S"
    by (auto simp: handleSend_reject)
  have i: "turn_inv (run (system_init tok b) evs)" by (rule turn_inv_run [OF turn_inv_init])
  let ?R = "run (system_init tok b) evs"
  have l: "length (in_flight ?R) \<le> 1" using i by (auto simp: turn_inv_def split: list.splits)
  have n: "in_flight ?R \<noteq> [] \<longrightarrow> loadingStage (win ?R) \<noteq> idle"
    using i by (auto simp: turn_inv_def split: list.splits)
  have "in_flight ?R \<noteq> [] \<longrightarrow> sent (step ?R (Send fresh now)) = sent ?R"
    using n by (auto simp: handleSend_reject)
  with a l n show ?thesis by (simp add: Let_def)
qed

lemmas chat_eval =
  run_def system_init_def ChatWindow_init_def handleSend_def trim_def is_ws_def lit_def Let_def
  setTimeout_def timer_fire_def clearTimeout_def handleSend_resume_def sendChatMessage_def
  remove_nth_def slice_last_def or_undefined_def sendChatMessage_request_def truthy_def
  ok_def removeItem_def to_root_def handleClear_def cross_prefix_def

theorem turn_resolution_returns_to_idle_witness:
  "(let S = run (system_init (lit ''tk'') \<lparr>localStorage = Map.empty, pathname = lit ''/'', location_search = []\<rparr>)
               [Edit (lit ''hi''), Send (lit ''m1'') 5, Fire 1];
        S' = step S (Settle 0 (Rejected (Error (lit ''Failed to fetch''))) (lit ''m2'') 9)
    in 0 < length (in_flight S) \<and> loadingStage (win S) = reading \<and>
       in_flight S ! 0 = \<lparr>stageTimer1 = 1, stageTimer2 = 2\<rparr> \<and>
       loadingStage (win S') = idle \<and>
       2 \<notin> handle ` set (timers (win (run S' [Edit (lit ''again'')]))) \<and>
       step (run S' [Edit (lit ''again'')]) (Fire 2) = run S' [Edit (lit ''again'')])"
proof -
  let ?b = "\<lparr>localStorage = Map.empty, pathname = lit ''/'', location_search = []\<rparr>"
  let ?S = "run (system_init (lit ''tk'') ?b) [Edit (lit ''hi''), Send (lit ''m1'') 5, Fire 1]"
  have k: "0 < length (in_flight ?S)" by (simp add: chat_eval)
  have t: "in_flight ?S ! 0 = \<lparr>stageTimer1 = 1, stageTimer2 = 2\<rparr>" by (simp add: chat_eval)
  have r: "loadingStage (win ?S) = reading" by (simp add: chat_eval)
  note res = turn_resolution_returns_to_idle [OF refl k,
      of "Rejected (Error (lit ''Failed to fetch''))" "lit ''m2''" 9]
  from res have a: "loadingStage (win (step ?S (Settle 0 (Rejected (Error (lit ''Failed to fetch''))) (lit ''m2'') 9))) = idle"
    by blast
  from res have "\<forall>h \<in> {stageTimer1 (in_flight ?S ! 0), stageTimer2 (in_flight ?S ! 0)}.
            h \<notin> handle ` set (timers (win (run (step ?S (Settle 0 (Rejected (Error (lit ''Failed to fetch''))) (lit ''m2'') 9)) [Edit (lit ''again'')]))) \<and>
            step (run (step ?S (Settle 0 (Rejected (Error (lit ''Failed to fetch''))) (lit ''m2'') 9)) [Edit (lit ''again'')]) (Fire h) =
              run (step ?S (Settle 0 (Rejected (Error (lit ''Failed to fetch''))) (lit ''m2'') 9)) [Edit (lit ''again'')]"
    by blast
  then have b: "2 \<notin> handle ` set (timers (win (run (step ?S (Settle 0 (Rejected (Error (lit ''Failed to fetch''))) (lit ''m2'') 9)) [Edit (lit ''again'')]))) \<and>
            step (run (step ?S (Settle 0 (Rejected (Error (lit ''Failed to fetch''))) (lit ''m2'') 9)) [Edit (lit ''again'')]) (Fire 2) =
              run (step ?S (Settle 0 (Rejected (Error (lit ''Failed to fetch''))) (lit ''m2'') 9)) [Edit (lit ''again'')]"
    unfolding t by simp
  show ?thesis unfolding Let_def using k r t a b by blast
qed

theorem submit_rejected_while_busy_witness:
  "(let b = \<lparr>localStorage = Map.empty, pathname = lit ''/'', location_search = []\<rparr>;
        R = run (system_init (lit ''tk'') b) [Edit (lit ''hi''), Send (lit ''m1'') 5, Edit (lit ''more'')];
        Q = run (system_init (lit ''tk'') b) [Edit [32, 9, 160]]
    in loadingStage (win R) \<noteq> idle \<and> in_flight R \<noteq> [] \<and> length (in_flight R) \<le> 1 \<and>
       step R (Send (lit ''m2'') 6) = R \<and> sent (step R (Send (lit ''m2'') 6)) = sent R \<and>
       (\<forall>c\<in>set (input (win Q)). is_ws c) \<and> step Q (Send (lit ''m2'') 6) = Q)"
proof -
  let ?b = "\<lparr>localStorage = Map.empty, pathname = lit ''/'', location_search = []\<rparr>"
  let ?evs = "[Edit (lit ''hi''), Send (lit ''m1'') 5, Edit (lit ''more'')]"
  let ?R = "run (system_init (lit ''tk'') ?b) ?evs"
  let ?Q = "run (system_init (lit ''tk'') ?b) [Edit [32, 9, 160]]"
  have busy: "loadingStage (win ?R) \<noteq> idle" by (simp add: chat_eval)
  have fl: "in_flight ?R \<noteq> []" by (simp add: chat_eval)
  have ws: "\<forall>c\<in>set (input (win ?Q)). is_ws c" by (simp add: chat_eval)
  note r = submit_rejected_while_busy [of ?R "lit ''m2''" 6 "lit ''tk''" ?b ?evs]
  note q = submit_rejected_while_busy [of ?Q "lit ''m2''" 6 "lit ''tk''" ?b ?evs]
  from r busy have r1: "step ?R (Send (lit ''m2'') 6) = ?R" by blast
  from r have r2: "length (in_flight ?R) \<le> 1" unfolding Let_def by blast
  from r fl have r3: "sent (step ?R (Send (lit ''m2'') 6)) = sent ?R" unfolding Let_def by blast
  from q ws have q1: "step ?Q (Send (lit ''m2'') 6) = ?Q" by blast
  show ?thesis unfolding Let_def using busy fl ws r1 r2 r3 q1 by blast
qed

text \<open>
  C4. After a decoded response the continuation of \<open>handleSend\<close> appends one
  assistant message: its content is the cross-mark prefix followed by the error text
  when the error field is a non-empty string, otherwise the answer when that is
  non-empty, otherwise the placeholder; it carries the intermediate steps and the token
  count of the response, and \<open>isError\<close> is true exactly when the error field is a
  non-empty string.
\<close>

theorem assistant_message_of_response:
  "(let w' = handleSend_resume fresh now t (Inr r) w; m = last (messages w')
    in messages w' = messages w @ [m] \<and> role m = Role_assistant \<and>
       content m =
         (case error r of
            Some e \<Rightarrow>
              if e \<noteq> [] then cross_prefix @ e
              else if answer r \<noteq> [] then answer r else lit ''No response generated.''
          | None \<Rightarrow> if answer r \<noteq> [] then answer r else lit ''No response generated.'') \<and>
       steps m = Some (intermediate_steps r) \<and>
       Message.tokens m = Some (ChatResponse.tokens r) \<and>
       isError m = Some (\<exists>e. error r = Some e \<and> e \<noteq> []))"
  by (auto simp: handleSend_resume_def Let_def truthy_def clearTimeout_def split: option.splits)

theorem assistant_message_of_response_witness:
  "(let r = \<lparr>answer = [], intermediate_steps = [], tokens = 0, error = Some (lit ''backend timeout'')\<rparr>;
        w' = handleSend_resume (lit ''m2'') 9 \<lparr>stageTimer1 = 1, stageTimer2 = 2\<rparr> (Inr r) ChatWindow_init;
        m = last (messages w')
    in error r = Some (lit ''backend timeout'') \<and> lit ''backend timeout'' \<noteq> [] \<and>
       content m = [10060, 32] @ lit ''backend timeout'' \<and> isError m = Some True \<and>
       Message.tokens m = Some 0 \<and> steps m = Some [])"
  using assistant_message_of_response [of "lit ''m2''" 9 "\<lparr>stageTimer1 = 1, stageTimer2 = 2\<rparr>"
      "\<lparr>answer = [], intermediate_steps = [], tokens = 0, error = Some (lit ''backend timeout'')\<rparr>"
      ChatWindow_init]
  by (simp add: Let_def lit_def cross_prefix_def)

lemma slice_last_suffix:
  "\<exists>older. xs = older @ slice_last n xs \<and> length (slice_last n xs) = min n (length xs)"
proof -
  have "xs = take (length xs - n) xs @ slice_last n xs" by (simp add: slice_last_def)
  moreover have "length (slice_last n xs) = min n (length xs)" by (simp add: slice_last_def)
  ultimately show ?thesis by blast
qed

text \<open>
  C5. When \<open>handleSend\<close> accepts, the history of the request is the (role, content)
  pairs of a suffix of the messages held before the call, in their order, of length
  the smaller of 10 and their number; with 12 messages held it is the pairs of the last
  10. The new user message is appended to the state and is not part of that history.
\<close>

theorem request_history_window:
  assumes "handleSend fresh now tok w = (w', Some (req, t))"
  shows "(\<exists>older recent.
            messages w = older @ recent \<and> length recent = min 10 (length (messages w)) \<and>
            history (body req) = map (\<lambda>m. (role m, content m)) recent) \<and>
         (length (messages w) = 12 \<longrightarrow>
            history (body req) = map (\<lambda>m. (role m, content m)) (drop 2 (messages w)) \<and>
            length (history (body req)) = 10) \<and>
         (\<exists>userMsg. messages w' = messages w @ [userMsg] \<and> role userMsg = Role_user \<and>
            content userMsg = message (body req))"
proof -
  from assms have acc: "\<not> (trim (input w) = [] \<or> loadingStage w \<noteq> idle)"
    by (auto simp: handleSend_def Let_def split: if_splits)
  from assms acc have h: "history (body req) = map (\<lambda>m. (role m, content m)) (slice_last 10 (messages w))"
    by (auto simp: handleSend_def Let_def setTimeout_def sendChatMessage_request_def)
  from assms acc have m: "messages w' = messages w @ [\<lparr>id_msg = fresh, role = Role_user, content = message (body req),
            timestamp = now, steps = None, isError = None, tokens = None\<rparr>]"
    by (auto simp: handleSend_def Let_def setTimeout_def sendChatMessage_request_def)
  obtain older where o: "messages w = older @ slice_last 10 (messages w)"
      "length (slice_last 10 (messages w)) = min 10 (length (messages w))"
    using slice_last_suffix by blast
  have a: "\<exists>older recent.
            messages w = older @ recent \<and> length recent = min 10 (length (messages w)) \<and>
            history (body req) = map (\<lambda>m. (role m, content m)) recent"
    using o h by blast
  have b: "length (messages w) = 12 \<longrightarrow>
            history (body req) = map (\<lambda>m. (role m, content m)) (drop 2 (messages w)) \<and>
            length (history (body req)) = 10"
    using h by (simp add: slice_last_def)
  have c: "\<exists>userMsg. messages w' = messages w @ [userMsg] \<and> role userMsg = Role_user \<and>
            content userMsg = message (body req)"
    using m by simp
  show ?thesis using a b c by blast
qed

theorem request_history_window_witness:
  "(let ms = map (\<lambda>n. \<lparr>id_msg = [n], role = Role_user, content = [n], timestamp = n,
                        steps = Some [], isError = None, tokens = Some 7\<rparr>)
                 [1, 2, 3, 4, 5, 6, 7, 8, 9, 10, 11, 12];
        w = ChatWindow_init\<lparr>messages := ms, input := lit ''q''\<rparr>
    in \<exists>w' req t. handleSend (lit ''id'') 0 (lit ''tk'') w = (w', Some (req, t)) \<and>
         history (body req) = map (\<lambda>n. (Role_user, [n])) [3, 4, 5, 6, 7, 8, 9, 10, 11, 12])"
proof -
  let ?ms = "map (\<lambda>n. \<lparr>id_msg = [n], role = Role_user, content = [n], timestamp = n,
                        steps = Some [], isError = None, tokens = Some 7\<rparr>)
                 [1, 2, 3, 4, 5, 6, 7, 8, 9, 10, 11, 12::nat]"
  let ?w = "ChatWindow_init\<lparr>messages := ?ms, input := lit ''q''\<rparr>"
  have "\<exists>w' req t. handleSend (lit ''id'') 0 (lit ''tk'') ?w = (w', Some (req, t))"
    by (simp add: handleSend_def Let_def trim_def is_ws_def lit_def ChatWindow_init_def setTimeout_def)
  then obtain w' req t where acc: "handleSend (lit ''id'') 0 (lit ''tk'') ?w = (w', Some (req, t))"
    by blast
  have len: "length (messages ?w) = 12" by simp
  from request_history_window [OF acc] len
  have "history (body req) = map (\<lambda>m. (role m, content m)) (drop 2 (messages ?w))"
    by blast
  then have "history (body req) = map (\<lambda>n. (Role_user, [n])) [3, 4, 5, 6, 7, 8, 9, 10, 11, 12]"
    by simp
  with acc show ?thesis unfolding Let_def by blast
qed

section \<open>Properties of JSON.stringify and JSON.parse\<close>

lemma hex_value_hex_digit: "n < 16 \<Longrightarrow> hex_value (hex_digit n) = Some n"
  by (simp add: hex_value_def hex_digit_def)

lemma base16_recompose:
  "(c::nat) = 16 * q1 + r1 \<Longrightarrow> q1 = 16 * q2 + r2 \<Longrightarrow> q2 = 16 * q3 + r3 \<Longrightarrow>
   4096 * q3 + 256 * r3 + 16 * r2 + r1 = c"
  by linarith

lemma hex4_value:
  assumes "c < 65536"
  shows "4096 * (c div 4096 mod 16) + 256 * (c div 256 mod 16) + 16 * (c div 16 mod 16) + c mod 16 = (c::nat)"
proof -
  have a: "c = 16 * (c div 16) + c mod 16" by simp
  have b: "c div 16 = 16 * (c div 16 div 16) + c div 16 mod 16" by simp
  have c: "c div 16 div 16 = 16 * (c div 16 div 16 div 16) + c div 16 div 16 mod 16" by simp
  have d1: "c div 256 = c div 16 div 16" by (simp add: div_mult2_eq)
  have d2: "c div 4096 = c div 16 div 16 div 16" by (simp add: div_mult2_eq)
  have e: "c div 4096 < 16" using assms by simp
  then have f: "c div 16 div 16 div 16 mod 16 = c div 16 div 16 div 16" unfolding d2 by simp
  show ?thesis unfolding d1 d2 f by (rule base16_recompose [OF a b c])
qed

lemma lex_str_unicode_escape:
  assumes "c < 65536"
  shows "lexer_str acc (unicode_escape c @ rest) = lexer_str (acc @ [c]) rest"
proof -
  have h: "hex_value (hex_digit (c div 4096 mod 16)) = Some (c div 4096 mod 16)"
    "hex_value (hex_digit (c div 256 mod 16)) = Some (c div 256 mod 16)"
    "hex_value (hex_digit (c div 16 mod 16)) = Some (c div 16 mod 16)"
    "hex_value (hex_digit (c mod 16)) = Some (c mod 16)"
    by (simp_all add: hex_value_hex_digit)
  have "lexer_str acc (unicode_escape c @ rest) =
        lexer_str (acc @ [4096 * (c div 4096 mod 16) + 256 * (c div 256 mod 16) + 16 * (c div 16 mod 16) + c mod 16]) rest"
    unfolding unicode_escape_def by (simp add: h)
  then show ?thesis by (simp only: hex4_value [OF assms])
qed

lemma lex_str_plain:
  "c \<noteq> 34 \<Longrightarrow> c \<noteq> 92 \<Longrightarrow> \<not> c < 32 \<Longrightarrow> lexer_str acc (c # r) = lexer_str (acc @ [c]) r"
  by simp

lemma lex_str_short_escape:
  "unescape e = Some x \<Longrightarrow> e \<noteq> 117 \<Longrightarrow> lexer_str acc (92 # e # r) = lexer_str (acc @ [x]) r"
  by simp

lemma lex_str_close: "lexer_str acc (34 # r) = cons_tok (TStr acc) (lexer r)"
  by simp

lemma lex_str_quote_chars:
  "lexer_str acc (quote_chars s @ 34 # rest) = cons_tok (TStr (acc @ s)) (lexer rest)"
proof (induction "length s" arbitrary: s acc rule: less_induct)
  case less
  show ?case
  proof (cases s)
    case Nil
    then show ?thesis by (simp only: quote_chars.simps append_Nil append_Nil2 lex_str_close)
  next
    case (Cons c cs)
    have ih: "\<And>acc'. lexer_str acc' (quote_chars cs @ 34 # rest) = cons_tok (TStr (acc' @ cs)) (lexer rest)"
      using less [of cs] Cons by simp
    have fin: "cons_tok (TStr ((acc @ [c]) @ cs)) (lexer rest) = cons_tok (TStr (acc @ s)) (lexer rest)"
      using Cons by simp
    consider (short) "c = 8 \<or> c = 9 \<or> c = 10 \<or> c = 12 \<or> c = 13 \<or> c = 34 \<or> c = 92"
      | (ctrl) "\<not> (c = 8 \<or> c = 9 \<or> c = 10 \<or> c = 12 \<or> c = 13 \<or> c = 34 \<or> c = 92)" "c < 32"
      | (pair) d ds where "\<not> c < 32" "c \<noteq> 34" "c \<noteq> 92" "high_surrogate c" "cs = d # ds" "low_surrogate d"
      | (lone_high) "\<not> c < 32" "c \<noteq> 34" "c \<noteq> 92" "high_surrogate c" "cs = [] \<or> (\<exists>d ds. cs = d # ds \<and> \<not> low_surrogate d)"
      | (lone_low) "\<not> c < 32" "c \<noteq> 34" "c \<noteq> 92" "\<not> high_surrogate c" "low_surrogate c"
      | (plain) "\<not> c < 32" "c \<noteq> 34" "c \<noteq> 92" "\<not> high_surrogate c" "\<not> low_surrogate c"
      by (cases cs) blast+
    then show ?thesis
    proof cases
      case short
      then obtain e where e: "quote_chars s = [92, e] @ quote_chars cs" "unescape e = Some c" "e \<noteq> 117"
        unfolding Cons by (auto simp: unescape_def)
      have "lexer_str acc (quote_chars s @ 34 # rest) = lexer_str (acc @ [c]) (quote_chars cs @ 34 # rest)"
        unfolding e(1) using lex_str_short_escape [OF e(2) e(3)] by simp
      then show ?thesis by (simp only: ih fin)
    next
      case ctrl
      then have q: "quote_chars s = unicode_escape c @ quote_chars cs" unfolding Cons by simp
      have "c < 65536" using ctrl by simp
      then have "lexer_str acc (quote_chars s @ 34 # rest) = lexer_str (acc @ [c]) (quote_chars cs @ 34 # rest)"
        unfolding q using lex_str_unicode_escape by simp
      then show ?thesis by (simp only: ih fin)
    next
      case pair
      then have q: "quote_chars s = c # d # quote_chars ds"
        unfolding Cons by (simp add: not_less)
      have dd: "d \<noteq> 34" "d \<noteq> 92" "\<not> d < 32" using pair by (auto simp: low_surrogate_def)
      have ih2: "lexer_str ((acc @ [c]) @ [d]) (quote_chars ds @ 34 # rest) = cons_tok (TStr (((acc @ [c]) @ [d]) @ ds)) (lexer rest)"
        using less [of ds] Cons pair by simp
      have "lexer_str acc (quote_chars s @ 34 # rest) = lexer_str ((acc @ [c]) @ [d]) (quote_chars ds @ 34 # rest)"
        unfolding q using lex_str_plain [OF pair(2) pair(3) pair(1)] lex_str_plain [OF dd] by simp
      then show ?thesis unfolding ih2 using Cons pair by simp
    next
      case lone_high
      then have q: "quote_chars s = unicode_escape c @ quote_chars cs"
        unfolding Cons by (auto simp: not_less)
      have "c < 65536" using lone_high by (simp add: high_surrogate_def)
      then have "lexer_str acc (quote_chars s @ 34 # rest) = lexer_str (acc @ [c]) (quote_chars cs @ 34 # rest)"
        unfolding q using lex_str_unicode_escape by simp
      then show ?thesis by (simp only: ih fin)
    next
      case lone_low
      then have q: "quote_chars s = unicode_escape c @ quote_chars cs"
        unfolding Cons by (auto simp: not_less)
      have "c < 65536" using lone_low by (simp add: low_surrogate_def)
      then have "lexer_str acc (quote_chars s @ 34 # rest) = lexer_str (acc @ [c]) (quote_chars cs @ 34 # rest)"
        unfolding q using lex_str_unicode_escape by simp
      then show ?thesis by (simp only: ih fin)
    next
      case plain
      then have q: "quote_chars s = c # quote_chars cs"
        unfolding Cons by (auto simp: not_less)
      have "lexer_str acc (quote_chars s @ 34 # rest) = lexer_str (acc @ [c]) (quote_chars cs @ 34 # rest)"
        unfolding q using lex_str_plain [OF plain(2) plain(3) plain(1)] by simp
      then show ?thesis by (simp only: ih fin)
    qed
  qed
qed

lemma lex_QuoteJSONString: "lexer (QuoteJSONString s @ rest) = cons_tok (TStr s) (lexer rest)"
  using lex_str_quote_chars [of "[]" s rest] by (simp add: QuoteJSONString_def)

lemma lex_punct:
  "lexer (123 # r) = cons_tok TLBrace (lexer r)"
  "lexer (125 # r) = cons_tok TRBrace (lexer r)"
  "lexer (58 # r) = cons_tok TColon (lexer r)"
  "lexer (44 # r) = cons_tok TComma (lexer r)"
  by (simp_all add: is_digit_def is_lower_def punct_def)

lemma lex_string_object:
  "lexer (JSON_stringify (JObject [(k1, JString v1), (k2, JString v2), (k3, JString v3), (k4, JString v4)])) =
     Some [TLBrace, TStr k1, TColon, TStr v1, TComma, TStr k2, TColon, TStr v2, TComma,
           TStr k3, TColon, TStr v3, TComma, TStr k4, TColon, TStr v4, TRBrace]"
  by (simp add: lex_QuoteJSONString lex_punct cons_tok_def del: lexer.simps(2))

lemma prun_string_object:
  "prun (PValue, [])
     [TLBrace, TStr k1, TColon, TStr v1, TComma, TStr k2, TColon, TStr v2, TComma,
      TStr k3, TColon, TStr v3, TComma, TStr k4, TColon, TStr v4, TRBrace] =
   Some (JObject [(k1, JString v1), (k2, JString v2), (k3, JString v3), (k4, JString v4)])"
  by (simp add: start_value_def start_key_def after_value_def)

lemma JSON_parse_string_object:
  "JSON_parse (JSON_stringify (JObject [(k1, JString v1), (k2, JString v2), (k3, JString v3), (k4, JString v4)])) =
     Some (JObject [(k1, JString v1), (k2, JString v2), (k3, JString v3), (k4, JString v4)])"
  unfolding JSON_parse_def lex_string_object by (simp only: option.case prun_string_object)

lemma JSON_parse_newUser:
  "JSON_parse (JSON_stringify (newUser t n e p)) = Some (newUser t n e p)"
  unfolding newUser_def by (rule JSON_parse_string_object)

lemma JSON_stringify_object_nonempty: "JSON_stringify (JObject ps) \<noteq> []"
  by simp

section \<open>Properties of app/page.tsx\<close>

lemma JSON_parse_empty: "JSON_parse [] = None"
  by (simp add: JSON_parse_def)

lemma params_get_to_root: "params_get (to_root b) k = None"
  by (simp add: params_get_def to_root_def)

lemma page_load_callback:
  assumes "params_get b (lit ''token'') = Some tk" "tk \<noteq> []"
    and "params_get b (lit ''email'') = Some em" "em \<noteq> []"
  shows "page_load b =
     (to_root (setItem (lit ''user'')
        (JSON_stringify (newUser tk (params_get b (lit ''name'')) em (params_get b (lit ''picture'')))) b),
      \<lparr>user = newUser tk (params_get b (lit ''name'')) em (params_get b (lit ''picture'')), loading = False\<rparr>)"
  using assms
  by (simp add: page_load_def Home_effect_def Home_effect_callback_def Home_init_def truthy_def Let_def)

lemma page_load_restore_stored:
  assumes "params_get b (lit ''token'') = None \<or> params_get b (lit ''email'') = None"
    and "getItem (lit ''user'') b = Some stored" "stored \<noteq> []" "JSON_parse stored = Some v"
  shows "page_load b = (b, \<lparr>user = v, loading = False\<rparr>)"
  using assms
  by (auto simp add: page_load_def Home_effect_def Home_effect_restore_def Home_init_def truthy_def Let_def)

text \<open>
  C7. A page load whose address carries a non-empty \<open>token\<close> and a non-empty
  \<open>email\<close> sets the user to the object built from the callback parameters, stores
  its serialisation under \<open>user\<close>, and leaves the address without a query; the next
  page load, which finds no callback parameters, parses the stored entry back to the
  same user and changes nothing in the browser state. The witness is the callback
  \<open>token=T1, name=Jo, email=e@x.com, picture=\<close> (empty).
\<close>

theorem oauth_ingestion_replay_safe:
  assumes "params_get b (lit ''token'') = Some tk" "tk \<noteq> []"
    and "params_get b (lit ''email'') = Some em" "em \<noteq> []"
  shows "(case page_load b of
            (b1, h1) \<Rightarrow>
              user h1 = newUser tk (params_get b (lit ''name'')) em (params_get b (lit ''picture'')) \<and>
              getItem (lit ''user'') b1 = Some (JSON_stringify (user h1)) \<and>
              location_search b1 = [] \<and>
              page_load b1 = (b1, h1))"
proof -
  let ?u = "newUser tk (params_get b (lit ''name'')) em (params_get b (lit ''picture''))"
  let ?b1 = "to_root (setItem (lit ''user'') (JSON_stringify ?u) b)"
  have first: "page_load b = (?b1, \<lparr>user = ?u, loading = False\<rparr>)"
    by (rule page_load_callback [OF assms])
  have stored: "getItem (lit ''user'') ?b1 = Some (JSON_stringify ?u)"
    by (simp add: getItem_def to_root_def setItem_def)
  have ne: "JSON_stringify ?u \<noteq> []" by (simp add: newUser_def)
  have second: "page_load ?b1 = (?b1, \<lparr>user = ?u, loading = False\<rparr>)"
    by (rule page_load_restore_stored [OF _ stored ne JSON_parse_newUser])
       (simp add: params_get_to_root)
  have scrub: "location_search ?b1 = []" by (simp add: to_root_def)
  show ?thesis unfolding first using stored scrub second by simp
qed

theorem oauth_ingestion_replay_safe_witness:
  "(case page_load \<lparr>localStorage = Map.empty, pathname = lit ''/'',
                    location_search = [(lit ''token'', lit ''T1''), (lit ''name'', lit ''Jo''),
                                       (lit ''email'', lit ''e@x.com''), (lit ''picture'', [])]\<rparr> of
      (b1, h1) \<Rightarrow>
        user h1 = JObject [(lit ''token'', JString (lit ''T1'')), (lit ''name'', JString (lit ''Jo'')),
                           (lit ''email'', JString (lit ''e@x.com'')), (lit ''picture'', JString [])] \<and>
        getItem (lit ''user'') b1 = Some (JSON_stringify (user h1)) \<and>
        location_search b1 = [] \<and>
        page_load b1 = (b1, h1))"
proof -
  let ?b = "\<lparr>localStorage = Map.empty, pathname = lit ''/'',
                    location_search = [(lit ''token'', lit ''T1''), (lit ''name'', lit ''Jo''),
                                       (lit ''email'', lit ''e@x.com''), (lit ''picture'', [])]\<rparr>"
  have t: "params_get ?b (lit ''token'') = Some (lit ''T1'')" "lit ''T1'' \<noteq> []"
    by (simp_all add: params_get_def lit_def)
  have e: "params_get ?b (lit ''email'') = Some (lit ''e@x.com'')" "lit ''e@x.com'' \<noteq> []"
    by (simp_all add: params_get_def lit_def)
  have n: "params_get ?b (lit ''name'') = Some (lit ''Jo'')" "params_get ?b (lit ''picture'') = Some []"
    by (simp_all add: params_get_def lit_def)
  have u: "newUser (lit ''T1'') (Some (lit ''Jo'')) (lit ''e@x.com'') (Some []) =
           JObject [(lit ''token'', JString (lit ''T1'')), (lit ''name'', JString (lit ''Jo'')),
                    (lit ''email'', JString (lit ''e@x.com'')), (lit ''picture'', JString [])]"
    by (simp add: newUser_def or_default_def truthy_def lit_def)
  show ?thesis
    using oauth_ingestion_replay_safe [OF t e] unfolding n u .
qed

text \<open>
  C9. When the effect of \<open>Home\<close> does anything other than its restore branch, both
  \<open>token\<close> and \<open>email\<close> are present in the query. When both are truthy, the user
  is the object of the callback parameters, with \<open>User\<close> for a name that is absent
  (or empty) and the empty string for a picture that is absent, and it is what is stored.
  When \<open>token\<close> or \<open>email\<close> is missing, the effect is the restore branch: the
  user is left as it was or is what the stored entry parses to, and nothing is written
  to storage.
\<close>

theorem callback_needs_token_and_email:
  "(fst (Home_effect b h) \<noteq> fst (Home_effect_restore b h) \<or>
      user (snd (Home_effect b h)) \<noteq> user (snd (Home_effect_restore b h)) \<longrightarrow>
      params_get b (lit ''token'') \<noteq> None \<and> params_get b (lit ''email'') \<noteq> None) \<and>
   (truthy (params_get b (lit ''token'')) \<and> truthy (params_get b (lit ''email'')) \<longrightarrow>
      user (snd (Home_effect b h)) =
        JObject [(lit ''token'', JString (the (params_get b (lit ''token'')))),
                 (lit ''name'',
                    JString (case params_get b (lit ''name'') of
                               None \<Rightarrow> lit ''User''
                             | Some n \<Rightarrow> if n = [] then lit ''User'' else n)),
                 (lit ''email'', JString (the (params_get b (lit ''email'')))),
                 (lit ''picture'',
                    JString (case params_get b (lit ''picture'') of None \<Rightarrow> [] | Some p \<Rightarrow> p))] \<and>
      getItem (lit ''user'') (fst (Home_effect b h)) =
        Some (JSON_stringify (user (snd (Home_effect b h))))) \<and>
   (params_get b (lit ''token'') = None \<or> params_get b (lit ''email'') = None \<longrightarrow>
      Home_effect b h =
        (fst (Home_effect_restore b h), (snd (Home_effect_restore b h))\<lparr>Home.loading := False\<rparr>) \<and>
      (user (snd (Home_effect b h)) = user h \<or>
       (\<exists>stored. getItem (lit ''user'') b = Some stored \<and>
                 JSON_parse stored = Some (user (snd (Home_effect b h))))) \<and>
      (\<forall>k. getItem k (fst (Home_effect b h)) = getItem k b \<or>
           getItem k (fst (Home_effect b h)) = None))"
proof -
  have b: "truthy (params_get b (lit ''token'')) \<and> truthy (params_get b (lit ''email'')) \<longrightarrow>
      user (snd (Home_effect b h)) =
        JObject [(lit ''token'', JString (the (params_get b (lit ''token'')))),
                 (lit ''name'',
                    JString (case params_get b (lit ''name'') of
                               None \<Rightarrow> lit ''User''
                             | Some n \<Rightarrow> if n = [] then lit ''User'' else n)),
                 (lit ''email'', JString (the (params_get b (lit ''email'')))),
                 (lit ''picture'',
                    JString (case params_get b (lit ''picture'') of None \<Rightarrow> [] | Some p \<Rightarrow> p))] \<and>
      getItem (lit ''user'') (fst (Home_effect b h)) =
        Some (JSON_stringify (user (snd (Home_effect b h))))"
    by (auto simp: Home_effect_def Home_effect_callback_def Let_def newUser_def or_default_def
          truthy_def getItem_def setItem_def to_root_def split: option.splits)
  have c: "params_get b (lit ''token'') = None \<or> params_get b (lit ''email'') = None \<longrightarrow>
      Home_effect b h =
        (fst (Home_effect_restore b h), (snd (Home_effect_restore b h))\<lparr>Home.loading := False\<rparr>) \<and>
      (user (snd (Home_effect b h)) = user h \<or>
       (\<exists>stored. getItem (lit ''user'') b = Some stored \<and>
                 JSON_parse stored = Some (user (snd (Home_effect b h))))) \<and>
      (\<forall>k. getItem k (fst (Home_effect b h)) = getItem k b \<or>
           getItem k (fst (Home_effect b h)) = None)"
    by (auto simp: Home_effect_def Home_effect_restore_def Let_def truthy_def getItem_def
          removeItem_def split: option.splits prod.splits)
  have a: "fst (Home_effect b h) \<noteq> fst (Home_effect_restore b h) \<or>
      user (snd (Home_effect b h)) \<noteq> user (snd (Home_effect_restore b h)) \<longrightarrow>
      params_get b (lit ''token'') \<noteq> None \<and> params_get b (lit ''email'') \<noteq> None"
  proof (intro impI, rule ccontr)
    assume d: "fst (Home_effect b h) \<noteq> fst (Home_effect_restore b h) \<or>
      user (snd (Home_effect b h)) \<noteq> user (snd (Home_effect_restore b h))"
    assume "\<not> (params_get b (lit ''token'') \<noteq> None \<and> params_get b (lit ''email'') \<noteq> None)"
    then have "params_get b (lit ''token'') = None \<or> params_get b (lit ''email'') = None" by blast
    with c have e: "Home_effect b h =
        (fst (Home_effect_restore b h), (snd (Home_effect_restore b h))\<lparr>Home.loading := False\<rparr>)"
      by blast
    have "fst (Home_effect b h) = fst (Home_effect_restore b h)" by (subst e) simp
    moreover have "user (snd (Home_effect b h)) = user (snd (Home_effect_restore b h))"
      by (subst e) simp
    ultimately show False using d by blast
  qed
  show ?thesis using a b c by blast
qed

theorem callback_needs_token_and_email_witness:
  "(let b = \<lparr>localStorage = Map.empty, pathname = lit ''/'',
             location_search = [(lit ''token'', lit ''T1''), (lit ''email'', lit ''e@x.com'')]\<rparr>;
        c = \<lparr>localStorage = [lit ''user'' \<mapsto> lit ''7''], pathname = lit ''/'',
             location_search = [(lit ''token'', lit ''T1''), (lit ''name'', lit ''Jo'')]\<rparr>
    in truthy (params_get b (lit ''token'')) \<and> truthy (params_get b (lit ''email'')) \<and>
       params_get b (lit ''name'') = None \<and> params_get b (lit ''picture'') = None \<and>
       user (snd (Home_effect b Home_init)) =
         JObject [(lit ''token'', JString (lit ''T1'')), (lit ''name'', JString (lit ''User'')),
                  (lit ''email'', JString (lit ''e@x.com'')), (lit ''picture'', JString [])] \<and>
       fst (Home_effect b Home_init) \<noteq> fst (Home_effect_restore b Home_init) \<and>
       params_get c (lit ''email'') = None \<and>
       Home_effect c Home_init = (c, \<lparr>user = JNumber (lit ''7''), loading = False\<rparr>))"
proof -
  let ?b = "\<lparr>localStorage = Map.empty, pathname = lit ''/'',
             location_search = [(lit ''token'', lit ''T1''), (lit ''email'', lit ''e@x.com'')]\<rparr>"
  let ?c = "\<lparr>localStorage = [lit ''user'' \<mapsto> lit ''7''], pathname = lit ''/'',
             location_search = [(lit ''token'', lit ''T1''), (lit ''name'', lit ''Jo'')]\<rparr>"
  have p: "truthy (params_get ?b (lit ''token''))" "truthy (params_get ?b (lit ''email''))"
    "params_get ?b (lit ''name'') = None" "params_get ?b (lit ''picture'') = None"
    "the (params_get ?b (lit ''token'')) = lit ''T1''" "the (params_get ?b (lit ''email'')) = lit ''e@x.com''"
    by (simp_all add: params_get_def truthy_def lit_def)
  have q: "params_get ?c (lit ''email'') = None"
    by (simp add: params_get_def lit_def)
  have r: "Home_effect_restore ?c Home_init = (?c, Home_init\<lparr>user := JNumber (lit ''7'')\<rparr>)"
    by (simp add: Home_effect_restore_def getItem_def lit_def JSON_parse_def is_digit_def
          valid_number_def fraction_ok_def start_value_def)
  note w = callback_needs_token_and_email [of ?b Home_init]
  note v = callback_needs_token_and_email [of ?c Home_init]
  note wb = mp [OF w [THEN conjunct2, THEN conjunct1] conjI [OF p(1) p(2)]]
  note vc = mp [OF v [THEN conjunct2, THEN conjunct2] disjI2 [OF q]]
  have u: "user (snd (Home_effect ?b Home_init)) =
         JObject [(lit ''token'', JString (lit ''T1'')), (lit ''name'', JString (lit ''User'')),
                  (lit ''email'', JString (lit ''e@x.com'')), (lit ''picture'', JString [])]"
    using wb [THEN conjunct1] unfolding p(3) p(4) p(5) p(6) by (simp only: option.case)
  have g1: "getItem (lit ''user'') (fst (Home_effect ?b Home_init)) \<noteq> None"
    using wb [THEN conjunct2] by (simp only: option.distinct not_False_eq_True)
  have g2: "getItem (lit ''user'') (fst (Home_effect_restore ?b Home_init)) = None"
    by (simp add: Home_effect_restore_def getItem_def)
  have d: "fst (Home_effect ?b Home_init) \<noteq> fst (Home_effect_restore ?b Home_init)"
  proof
    assume "fst (Home_effect ?b Home_init) = fst (Home_effect_restore ?b Home_init)"
    then have "getItem (lit ''user'') (fst (Home_effect ?b Home_init)) =
               getItem (lit ''user'') (fst (Home_effect_restore ?b Home_init))"
      by (rule arg_cong)
    with g1 g2 show False by simp
  qed
  have e: "Home_effect ?c Home_init = (?c, \<lparr>user = JNumber (lit ''7''), loading = False\<rparr>)"
    using vc [THEN conjunct1] unfolding r by (simp add: Home_init_def)
  show ?thesis unfolding Let_def using p(1-4) u d q e by blast
qed

text \<open>
  C10, amended. On the restore branch, a stored entry that is not the empty string and
  does not parse leaves the user null, raises nothing, and is removed from storage,
  every other entry staying; the next load finds no entry and ends in the same state.
\<close>

theorem malformed_payload_removed:
  assumes "\<not> (truthy (params_get b (lit ''token'')) \<and> truthy (params_get b (lit ''email'')))"
    and "getItem (lit ''user'') b = Some stored" and "stored \<noteq> []" and "JSON_parse stored = None"
  shows "(case page_load b of
            (b1, h1) \<Rightarrow>
              user h1 = JNull \<and> Home.loading h1 = False \<and>
              getItem (lit ''user'') b1 = None \<and>
              (\<forall>k. k \<noteq> lit ''user'' \<longrightarrow> getItem k b1 = getItem k b) \<and>
              page_load b1 = (b1, h1))"
proof -
  let ?b1 = "removeItem (lit ''user'') b"
  let ?h1 = "\<lparr>user = JNull, loading = False\<rparr>"
  have branch: "(truthy (params_get b (lit ''token'')) \<and> truthy (params_get b (lit ''email''))) = False"
    using assms(1) by simp
  have first: "page_load b = (?b1, ?h1)"
    using assms(2-4)
    by (simp add: page_load_def Home_effect_def Home_effect_restore_def Let_def Home_init_def branch)
  have gone: "getItem (lit ''user'') ?b1 = None" by (simp add: getItem_def removeItem_def)
  have same: "params_get ?b1 = params_get b" by (simp add: params_get_def removeItem_def fun_eq_iff)
  have second: "page_load ?b1 = (?b1, ?h1)"
    using gone
    by (simp add: page_load_def Home_effect_def Home_effect_restore_def Let_def Home_init_def same branch)
  have others: "\<forall>k. k \<noteq> lit ''user'' \<longrightarrow> getItem k ?b1 = getItem k b"
    by (simp add: getItem_def removeItem_def)
  show ?thesis unfolding first using gone others second by simp
qed

theorem malformed_payload_removed_witness:
  "(let b = \<lparr>localStorage = [lit ''user'' \<mapsto> lit ''{bad''], pathname = lit ''/'', location_search = []\<rparr>
    in \<not> (truthy (params_get b (lit ''token'')) \<and> truthy (params_get b (lit ''email''))) \<and>
       getItem (lit ''user'') b = Some (lit ''{bad'') \<and> lit ''{bad'' \<noteq> [] \<and>
       JSON_parse (lit ''{bad'') = None \<and>
       getItem (lit ''user'') (fst (page_load b)) = None \<and>
       user (snd (page_load b)) = JNull \<and>
       page_load (fst (page_load b)) = page_load b)"
proof -
  let ?b = "\<lparr>localStorage = [lit ''user'' \<mapsto> lit ''{bad''], pathname = lit ''/'', location_search = []\<rparr>"
  have a: "\<not> (truthy (params_get ?b (lit ''token'')) \<and> truthy (params_get ?b (lit ''email'')))"
    by (simp add: params_get_def truthy_def)
  have g: "getItem (lit ''user'') ?b = Some (lit ''{bad'')" by (simp add: getItem_def)
  have n: "lit ''{bad'' \<noteq> []" by (simp add: lit_def)
  have m: "JSON_parse (lit ''{bad'') = None"
    by (simp add: JSON_parse_def lit_def is_digit_def is_lower_def punct_def cons_tok_def
          start_value_def start_key_def word_value_def)
  from malformed_payload_removed [OF a g n m]
  have "getItem (lit ''user'') (fst (page_load ?b)) = None \<and>
       user (snd (page_load ?b)) = JNull \<and>
       page_load (fst (page_load ?b)) = page_load ?b"
    by (auto split: prod.splits)
  then show ?thesis unfolding Let_def using a g n m by blast
qed

text \<open>
  The empty string stored under \<open>user\<close> is present and does not parse, yet
  \<open>if (stored)\<close> skips it: the entry is still there after the load.
\<close>

theorem empty_payload_kept_counterexample:
  "getItem (lit ''user'') \<lparr>localStorage = [lit ''user'' \<mapsto> []], pathname = lit ''/'', location_search = []\<rparr> = Some [] \<and>
   JSON_parse [] = None \<and>
   getItem (lit ''user'')
     (fst (page_load \<lparr>localStorage = [lit ''user'' \<mapsto> []], pathname = lit ''/'', location_search = []\<rparr>)) = Some []"
  by (simp add: JSON_parse_def page_load_def Home_effect_def Home_effect_restore_def Let_def
        params_get_def truthy_def getItem_def)

section \<open>Properties of components/FolderSelector.tsx\<close>

lemma render_committed:
  "last_deps (render tok s) = Some (isOpen (render tok s), tok, length (folders (render tok s)))"
  by (simp add: render_def FolderSelector_effect_def Let_def)

lemma folder_run_committed:
  "last_deps s = Some (isOpen s, tok, length (folders s)) \<Longrightarrow>
   last_deps (folder_run tok s evs) =
     Some (isOpen (folder_run tok s evs), tok, length (folders (folder_run tok s evs)))"
  unfolding folder_run_def
  by (induction evs arbitrary: s) (simp_all add: folder_step_def render_committed)

text \<open>
  C8, amended. In every state that the selector reaches, opening it (a click on its
  button while it is closed) issues exactly one \<open>fetchFolders\<close> call when the
  folder cache is empty and none when it is not, whether or not an earlier call is still
  outstanding: the effect tests \<open>isOpen\<close> and \<open>folders.length\<close> only.
\<close>

theorem open_fetches_when_cache_empty:
  assumes "s = folder_run tok (FolderSelector_mount tok) evs" and "\<not> isOpen s"
  shows "calls (folder_step tok s Toggle) = (if folders s = [] then calls s @ [tok] else calls s) \<and>
         pending (folder_step tok s Toggle) = (if folders s = [] then Suc (pending s) else pending s) \<and>
         isOpen (folder_step tok s Toggle)"
proof -
  have "last_deps (FolderSelector_mount tok) =
          Some (isOpen (FolderSelector_mount tok), tok, length (folders (FolderSelector_mount tok)))"
    unfolding FolderSelector_mount_def by (rule render_committed)
  then have "last_deps s = Some (isOpen s, tok, length (folders s))"
    unfolding assms(1) by (rule folder_run_committed)
  with assms(2) show ?thesis
    by (simp add: folder_step_def render_def FolderSelector_effect_def Let_def)
qed

lemmas folder_eval =
  folder_run_def folder_step_def FolderSelector_mount_def FolderSelector_init_def render_def
  FolderSelector_effect_def Let_def

theorem open_fetches_when_cache_empty_witness:
  "(let s = folder_run (lit ''tk'') (FolderSelector_mount (lit ''tk'')) [Toggle, Close]
    in \<not> isOpen s \<and> folders s = [] \<and> pending s = 1 \<and> FolderSelector.loading s \<and>
       calls (folder_step (lit ''tk'') s Toggle) = calls s @ [lit ''tk''] \<and>
       pending (folder_step (lit ''tk'') s Toggle) = 2)"
proof -
  let ?s = "folder_run (lit ''tk'') (FolderSelector_mount (lit ''tk'')) [Toggle, Close]"
  have c: "\<not> isOpen ?s" by (simp add: folder_eval)
  have f: "folders ?s = []" "pending ?s = 1" "FolderSelector.loading ?s" by (simp_all add: folder_eval)
  note t = open_fetches_when_cache_empty [OF refl c]
  have "calls (folder_step (lit ''tk'') ?s Toggle) = calls ?s @ [lit ''tk'']"
    using t [THEN conjunct1] unfolding f(1) by (simp only: simp_thms if_True)
  moreover have "pending (folder_step (lit ''tk'') ?s Toggle) = 2"
    using t [THEN conjunct2, THEN conjunct1] unfolding f by simp
  ultimately show ?thesis unfolding Let_def using c f by blast
qed

text \<open>
  Open, close and open again with the first fetch still outstanding and the cache
  still empty: the second opening issues a second \<open>fetchFolders\<close> call.
\<close>

theorem reopen_while_fetching_counterexample:
  "pending (folder_run (lit ''tk'') (FolderSelector_mount (lit ''tk'')) [Toggle, Close]) = 1 \<and>
   folders (folder_run (lit ''tk'') (FolderSelector_mount (lit ''tk'')) [Toggle, Close]) = [] \<and>
   calls (folder_run (lit ''tk'') (FolderSelector_mount (lit ''tk'')) [Toggle, Close]) = [lit ''tk''] \<and>
   calls (folder_run (lit ''tk'') (FolderSelector_mount (lit ''tk'')) [Toggle, Close, Toggle]) =
     [lit ''tk'', lit ''tk'']"
  by (simp add: folder_eval)

end
